theory Spec2Isabelle
  imports Complex_Main "HOL-Library.Sublist" "HOL-Library.Log_Nat"
begin

section \<open>Strings\<close>

text \<open>
  JavaScript strings are modelled as \<^typ>\<open>string\<close>. \<open>s.includes(t)\<close> is
  \<^term>\<open>sublist t s\<close>, \<open>s.endsWith(t)\<close> is \<^term>\<open>suffix t s\<close>.
  \<open>toLowerCase\<close> maps the letters A-Z to a-z and leaves every other character
  as it is (the payloads, fingerprints and patterns of the scanner are ASCII).
\<close>

definition lowerChar :: "char \<Rightarrow> char" where
  "lowerChar c =
     (let n = (of_char c :: nat) in if 65 \<le> n \<and> n \<le> 90 then char_of (n + 32) else c)"

definition toLowerCase :: "string \<Rightarrow> string" where
  "toLowerCase s = map lowerChar s"

definition toUpperChar :: "char \<Rightarrow> char" where
  "toUpperChar c =
     (let n = (of_char c :: nat) in if 97 \<le> n \<and> n \<le> 122 then char_of (n - 32) else c)"

definition toUpperCase :: "string \<Rightarrow> string" where
  "toUpperCase s = map toUpperChar s"

definition includesStr :: "string \<Rightarrow> string \<Rightarrow> bool" where
  "includesStr s t = sublist t s"

definition endsWith :: "string \<Rightarrow> string \<Rightarrow> bool" where
  "endsWith s t = suffix t s"

section \<open>The HTTP client of the scan worker (server/scan-worker.cjs)\<close>

text \<open>
  \<open>response.data\<close> is a string for textual content and another JavaScript value
  (a parsed JSON object, a buffer) otherwise. Of the response headers the worker reads
  only \<open>server\<close>.
\<close>

datatype body = Text string | NonText

record response =
  status :: nat
  server :: "string option"
  data :: body

text \<open>
  What the network does with one request: a response arrives (with any status), or none
  does (DNS, TLS, connection or timeout failure), with the error's message.
\<close>

datatype axios_outcome = Received response | NoResponse string

record request =
  req_url :: string
  req_method :: string
  req_data :: "string option"
  req_content_type :: "string option"

record fetch_options =
  opt_method :: "string option"
  opt_data :: "string option"
  opt_content_type :: "string option"

definition no_options :: fetch_options where
  "no_options = \<lparr>opt_method = None, opt_data = None, opt_content_type = None\<rparr>"

text \<open>
  The network is outside the program: a function from the exchanges so far and the
  request to the outcome, so that a server may answer the same request differently over
  time.
\<close>

type_synonym exchange = "request \<times> axios_outcome"
type_synonym network = "exchange list \<Rightarrow> request \<Rightarrow> axios_outcome"

text \<open>
  The promise returned by \<open>axios(config)\<close>: it resolves with the response when
  \<open>validateStatus\<close> accepts the status, and rejects otherwise; the rejection carries
  the response when there is one (\<open>err.response\<close>).
\<close>

datatype axios_result = Resolved response | Rejected "response option" string

definition axios :: "(nat \<Rightarrow> bool) \<Rightarrow> axios_outcome \<Rightarrow> axios_result" where
  "axios validateStatus out =
     (case out of
        Received r \<Rightarrow>
          if validateStatus (status r) then Resolved r
          else Rejected (Some r) ''Request failed with status code''
      | NoResponse m \<Rightarrow> Rejected None m)"

definition or_default :: "string option \<Rightarrow> string \<Rightarrow> string" where
  \<comment> \<open>\<open>x || d\<close> on an optional string: \<open>undefined\<close> and \<open>''\<close> are falsy\<close>
  "or_default x d = (case x of None \<Rightarrow> d | Some v \<Rightarrow> if v = [] then d else v)"

definition axios_request :: "string \<Rightarrow> fetch_options \<Rightarrow> request" where
  "axios_request u options =
     \<lparr>req_url = u, req_method = or_default (opt_method options) ''GET'',
      req_data = opt_data options, req_content_type = opt_content_type options\<rparr>"

record finding =
  vuln_id :: string
  name :: string
  severity :: string
  description :: string
  location :: string
  impact :: string
  category :: string

record scan_result =
  vulnerabilities :: "finding list"
  formsFound :: nat
  endpointsTested :: nat
  pageUrl :: string

text \<open>The state of one \<open>scanPage\<close> run: its result object and the HTTP exchanges made.\<close>

record scan_state = scan_result +
  exchanges :: "exchange list"

definition fetchPage ::
  "network \<Rightarrow> string \<Rightarrow> fetch_options \<Rightarrow> scan_state \<Rightarrow> (string + response) \<times> scan_state" where
  "fetchPage net u options st =
     (let rq = axios_request u options;
          out = net (exchanges st) rq;
          st' = st\<lparr>exchanges := exchanges st @ [(rq, out)]\<rparr>
      in case axios (\<lambda>s. s < 500) out of
           Resolved res \<Rightarrow> (Inr res, st')
         | Rejected (Some res) m \<Rightarrow> (Inr res, st')
         | Rejected None m \<Rightarrow> (Inl (''fetch error: '' @ m), st'))"

definition init_state :: "string \<Rightarrow> scan_state" where
  "init_state u =
     \<lparr>vulnerabilities = [], formsFound = 0, endpointsTested = 0, pageUrl = u, exchanges = []\<rparr>"

section \<open>The page scanner (server/scan-worker.cjs)\<close>

definition XSS_PAYLOADS :: "string list" where
  \<open>XSS_PAYLOADS =
    [''<script>alert("XSS")</script>'',
     ''"><script>alert("XSS")</script>'',
     ''<img src=x onerror=alert("XSS")>'',
     ''javascript:alert("XSS")'',
     ''<svg onload=alert("XSS")>'',
     ''"><img src=x onerror=alert("XSS")>'',
     ''<iframe src="javascript:alert(\'XSS\')"></iframe>'']\<close>

definition SQL_PAYLOADS :: "string list" where
  \<open>SQL_PAYLOADS =
    [''\' OR \'1\'=\'1'',
     ''\' OR 1=1--'',
     ''\'; DROP TABLE users;--'',
     ''\' UNION SELECT null, null, null--'',
     ''admin\'--'',
     ''admin\' #'',
     ''admin\'/*'',
     ''\' or 1=1#'',
     ''\' or 1=1--'',
     ''\' or 1=1/*'',
     ''\') or \'1\'=\'1--'',
     ''\') or (\'1\'=\'1--'']\<close>

definition SQL_ERRORS :: "string list" where
  "SQL_ERRORS =
    [''mysql_fetch_array'', ''ORA-'', ''Microsoft OLE DB Provider'',
     ''PostgreSQL query failed'', ''Warning: mysql_'', ''SQL syntax'', ''mysql_error'',
     ''valid MySQL result'', ''MySqlClient'', ''syntax error'']"

fun containsPayload :: "body \<Rightarrow> string \<Rightarrow> bool" where
  "containsPayload NonText payload = False"
| "containsPayload (Text html) payload =
     (if html = [] then False else includesStr (toLowerCase html) (toLowerCase payload))"

fun containsSQLError :: "body \<Rightarrow> bool" where
  "containsSQLError NonText = False"
| "containsSQLError (Text html) =
     (if html = [] then False
      else list_ex (\<lambda>err. includesStr (toLowerCase html) (toLowerCase err)) SQL_ERRORS)"

text \<open>
  What \<open>cheerio.load(html)\<close> gives the scanner: the \<open>form\<close> elements in document
  order, each with its \<open>action\<close> and \<open>method\<close> attributes and its descendant
  elements (tag name, \<open>type\<close> and \<open>name\<close> attributes), and the inner HTML of every
  \<open>script\<close> element.
\<close>

record element =
  tag :: string
  type_attr :: "string option"
  name_attr :: "string option"

record form =
  action_attr :: "string option"
  method_attr :: "string option"
  elements :: "element list"

record document =
  forms :: "form list"
  scripts :: "string list"

text \<open>
  The libraries the worker calls, taken as parameters: \<open>load\<close> is \<open>cheerio.load\<close>;
  \<open>typeEq v t\<close> is whether the selector engine takes the attribute value \<open>v\<close> to
  match \<open>[type="t"]\<close>; \<open>resolve rel base\<close> is \<open>new URL(rel, base).href\<close>, \<open>None\<close>
  when it throws; \<open>searchParams u\<close> is the parameter names of
  \<open>new URL(u).searchParams\<close> in order, \<open>None\<close> when \<open>new URL(u)\<close> throws;
  \<open>setParam u p v\<close> is the \<open>href\<close> of \<open>new URL(u)\<close> after
  \<open>searchParams.set(p, v)\<close>; \<open>encode\<close> is \<open>URLSearchParams.toString()\<close> of the
  appended pairs.
\<close>

record library =
  load :: "string \<Rightarrow> document"
  typeEq :: "string \<Rightarrow> string \<Rightarrow> bool"
  resolve :: "string \<Rightarrow> string \<Rightarrow> string option"
  searchParams :: "string \<Rightarrow> string list option"
  setParam :: "string \<Rightarrow> string \<Rightarrow> string \<Rightarrow> string"
  encode :: "(string \<times> string) list \<Rightarrow> string"

definition hasType :: "library \<Rightarrow> string \<Rightarrow> element \<Rightarrow> bool" where
  \<comment> \<open>the selector \<open>[type="t"]\<close>\<close>
  "hasType lib t e = (case type_attr e of None \<Rightarrow> False | Some v \<Rightarrow> typeEq lib v t)"

definition nameContains :: "string \<Rightarrow> element \<Rightarrow> bool" where
  \<comment> \<open>the selector \<open>[name*="t"]\<close>\<close>
  "nameContains t e = (case name_attr e of None \<Rightarrow> False | Some v \<Rightarrow> includesStr v t)"

definition csrfTokens :: "library \<Rightarrow> form \<Rightarrow> element list" where
  \<comment> \<open>\<open>input[type="hidden"][name*="csrf"], input[type="hidden"][name*="token"]\<close>\<close>
  "csrfTokens lib f =
     filter (\<lambda>e. (tag e = ''input'' \<and> hasType lib ''hidden'' e \<and> nameContains ''csrf'' e)
                \<or> (tag e = ''input'' \<and> hasType lib ''hidden'' e \<and> nameContains ''token'' e))
       (elements f)"

definition sensitiveInputs :: "library \<Rightarrow> form \<Rightarrow> element list" where
  \<comment> \<open>\<open>input[type="password"], input[name*="password"], input[name*="email"]\<close>\<close>
  "sensitiveInputs lib f =
     filter (\<lambda>e. (tag e = ''input'' \<and> hasType lib ''password'' e)
                \<or> (tag e = ''input'' \<and> nameContains ''password'' e)
                \<or> (tag e = ''input'' \<and> nameContains ''email'' e))
       (elements f)"

definition fuzzInputs :: "library \<Rightarrow> form \<Rightarrow> element list" where
  \<comment> \<open>\<open>input:not([type="hidden"]), textarea\<close>\<close>
  "fuzzInputs lib f =
     filter (\<lambda>e. (tag e = ''input'' \<and> \<not> hasType lib ''hidden'' e) \<or> tag e = ''textarea'')
       (elements f)"

definition formMethod :: "form \<Rightarrow> string" where
  "formMethod f = toUpperCase (or_default (method_attr f) ''GET'')"

definition formTarget :: "library \<Rightarrow> string \<Rightarrow> form \<Rightarrow> string" where
  "formTarget lib page_url f =
     (case resolve lib (or_default (action_attr f) page_url) page_url of
        Some href \<Rightarrow> href
      | None \<Rightarrow> page_url)"

text \<open>
  The findings. The \<open>id\<close> of a finding is its prefix here; the code appends
  \<open>Date.now()\<close> and \<open>Math.random()\<close> to it.
\<close>

definition csrfFinding :: "string \<Rightarrow> finding" where
  "csrfFinding targetUrl =
     \<lparr>vuln_id = ''csrf'', name = ''Cross-Site Request Forgery (CSRF)'', severity = ''Medium'',
      description = ''CSRF protection missing on sensitive form at '' @ targetUrl,
      location = ''POST '' @ targetUrl,
      impact = ''Attackers could perform actions on behalf of users.'',
      category = ''CSRF''\<rparr>"

definition xssFinding :: "string \<Rightarrow> string \<Rightarrow> string \<Rightarrow> finding" where
  \<open>xssFinding nm method targetUrl =
     \<lparr>vuln_id = ''xss'', name = ''Reflected XSS'', severity = ''High'',
      description = ''Reflected XSS in form input "'' @ nm @ ''"'',
      location = method @ '' '' @ targetUrl,
      impact = ''Malicious scripts execution.'',
      category = ''XSS''\<rparr>\<close>

definition sqliFinding :: "string \<Rightarrow> string \<Rightarrow> string \<Rightarrow> finding" where
  \<open>sqliFinding nm method targetUrl =
     \<lparr>vuln_id = ''sqli'', name = ''SQL Injection'', severity = ''Critical'',
      description = ''SQL Injection in form input "'' @ nm @ ''"'',
      location = method @ '' '' @ targetUrl,
      impact = ''Database compromise.'',
      category = ''SQL Injection''\<rparr>\<close>

definition urlXssFinding :: "string \<Rightarrow> string \<Rightarrow> finding" where
  \<open>urlXssFinding param href =
     \<lparr>vuln_id = ''url-xss'', name = ''Reflected XSS (URL)'', severity = ''High'',
      description = ''Reflected XSS in URL parameter "'' @ param @ ''"'',
      location = ''GET '' @ href,
      impact = ''Malicious scripts execution.'',
      category = ''XSS''\<rparr>\<close>

definition urlSqliFinding :: "string \<Rightarrow> string \<Rightarrow> finding" where
  \<open>urlSqliFinding param href =
     \<lparr>vuln_id = ''url-sqli'', name = ''SQL Injection (URL)'', severity = ''Critical'',
      description = ''SQL Injection in URL parameter "'' @ param @ ''"'',
      location = ''GET '' @ href,
      impact = ''Database compromise.'',
      category = ''SQL Injection''\<rparr>\<close>

definition domXssFinding :: "string \<Rightarrow> finding" where
  "domXssFinding page_url =
     \<lparr>vuln_id = ''dom-xss'', name = ''Potential DOM XSS'', severity = ''High'',
      description = ''Dangerous DOM sink usage (innerHTML/document.write)'',
      location = page_url,
      impact = ''Client-side code execution.'',
      category = ''XSS''\<rparr>"

definition serverFinding :: "string \<Rightarrow> finding" where
  "serverFinding v =
     \<lparr>vuln_id = ''info'', name = ''Server Header Disclosure'', severity = ''Low'',
      description = ''Server header exposed: '' @ v,
      location = ''HTTP Headers'',
      impact = ''Information leakage.'',
      category = ''Information Disclosure''\<rparr>"

definition dbErrorFinding :: "string \<Rightarrow> finding" where
  "dbErrorFinding page_url =
     \<lparr>vuln_id = ''info-sqler'', name = ''Database Error Disclosure'', severity = ''Medium'',
      description = ''Database error messages exposed on page'',
      location = page_url,
      impact = ''Information leakage.'',
      category = ''Information Disclosure''\<rparr>"

definition push :: "finding \<Rightarrow> scan_state \<Rightarrow> scan_state" where
  "push f st = st\<lparr>vulnerabilities := vulnerabilities st @ [f]\<rparr>"

definition countEndpoint :: "scan_state \<Rightarrow> scan_state" where
  "countEndpoint st = st\<lparr>endpointsTested := endpointsTested st + 1\<rparr>"

text \<open>
  The parameters of one probe: every other named input of the form gets the dummy value,
  the input under test gets the payload, appended last.
\<close>

definition probeParams ::
  "element list \<Rightarrow> string \<Rightarrow> string \<Rightarrow> string \<Rightarrow> (string \<times> string) list" where
  "probeParams inputs nm dummy payload =
     List.map_filter
       (\<lambda>el. case name_attr el of
                None \<Rightarrow> None
              | Some otherName \<Rightarrow>
                  if otherName \<noteq> [] \<and> otherName \<noteq> nm then Some (otherName, dummy) else None)
       inputs
     @ [(nm, payload)]"

definition probeRequest :: "library \<Rightarrow> string \<Rightarrow> string \<Rightarrow> (string \<times> string) list \<Rightarrow> request" where
  "probeRequest lib method targetUrl params =
     (if method = ''POST''
      then axios_request targetUrl
             \<lparr>opt_method = Some ''POST'', opt_data = Some (encode lib params),
              opt_content_type = Some ''application/x-www-form-urlencoded''\<rparr>
      else axios_request (targetUrl @ ''?'' @ encode lib params) no_options)"

definition probe ::
  "library \<Rightarrow> network \<Rightarrow> string \<Rightarrow> string \<Rightarrow> (string \<times> string) list \<Rightarrow> scan_state
     \<Rightarrow> (string + response) \<times> scan_state" where
  "probe lib net method targetUrl params st =
     (if method = ''POST''
      then fetchPage net targetUrl
             \<lparr>opt_method = Some ''POST'', opt_data = Some (encode lib params),
              opt_content_type = Some ''application/x-www-form-urlencoded''\<rparr> st
      else fetchPage net (targetUrl @ ''?'' @ encode lib params) no_options st)"

text \<open>
  The XSS loop over the payloads for one input: a failed fetch is caught and the loop
  goes on with the next payload; the first reflected payload pushes the finding and
  breaks.
\<close>

fun xssTest ::
  "library \<Rightarrow> network \<Rightarrow> string \<Rightarrow> string \<Rightarrow> element list \<Rightarrow> string \<Rightarrow> string list
     \<Rightarrow> scan_state \<Rightarrow> scan_state" where
  "xssTest lib net method targetUrl inputs nm [] st = st"
| "xssTest lib net method targetUrl inputs nm (payload # rest) st =
     (case probe lib net method targetUrl (probeParams inputs nm ''test'' payload)
             (countEndpoint st) of
        (Inl err, st') \<Rightarrow> xssTest lib net method targetUrl inputs nm rest st'
      | (Inr res, st') \<Rightarrow>
          if containsPayload (data res) payload
          then push (xssFinding nm method targetUrl) st'
          else xssTest lib net method targetUrl inputs nm rest st')"

fun sqlTest ::
  "library \<Rightarrow> network \<Rightarrow> string \<Rightarrow> string \<Rightarrow> element list \<Rightarrow> string \<Rightarrow> string list
     \<Rightarrow> scan_state \<Rightarrow> scan_state" where
  "sqlTest lib net method targetUrl inputs nm [] st = st"
| "sqlTest lib net method targetUrl inputs nm (payload # rest) st =
     (case probe lib net method targetUrl (probeParams inputs nm ''1'' payload)
             (countEndpoint st) of
        (Inl err, st') \<Rightarrow> sqlTest lib net method targetUrl inputs nm rest st'
      | (Inr res, st') \<Rightarrow>
          if containsSQLError (data res)
          then push (sqliFinding nm method targetUrl) st'
          else sqlTest lib net method targetUrl inputs nm rest st')"

text \<open>The loop over the inputs of a form: inputs without a name are skipped.\<close>

definition fuzzInput ::
  "library \<Rightarrow> network \<Rightarrow> string \<Rightarrow> string \<Rightarrow> element list \<Rightarrow> element \<Rightarrow> scan_state
     \<Rightarrow> scan_state" where
  "fuzzInput lib net method targetUrl inputs input st =
     (case name_attr input of
        None \<Rightarrow> st
      | Some nm \<Rightarrow>
          if nm = [] then st
          else sqlTest lib net method targetUrl inputs nm SQL_PAYLOADS
                 (xssTest lib net method targetUrl inputs nm XSS_PAYLOADS st))"

definition csrfCheck :: "library \<Rightarrow> string \<Rightarrow> form \<Rightarrow> scan_state \<Rightarrow> scan_state" where
  "csrfCheck lib targetUrl f st =
     (if formMethod f = ''POST'' \<and> length (sensitiveInputs lib f) > 0
         \<and> length (csrfTokens lib f) = 0
      then push (csrfFinding targetUrl) st
      else st)"

definition scanForm :: "library \<Rightarrow> network \<Rightarrow> string \<Rightarrow> form \<Rightarrow> scan_state \<Rightarrow> scan_state" where
  "scanForm lib net page_url f st =
     (let targetUrl = formTarget lib page_url f;
          method = formMethod f;
          inputs = fuzzInputs lib f
      in fold (fuzzInput lib net method targetUrl inputs) inputs
           (csrfCheck lib targetUrl f st))"

definition urlXssPayload :: string where
  \<open>urlXssPayload = ''<script>alert("XSS")</script>''\<close>

definition urlSqliPayload :: string where
  "urlSqliPayload = [CHR 0x27]"

definition testParam :: "library \<Rightarrow> network \<Rightarrow> string \<Rightarrow> string \<Rightarrow> scan_state \<Rightarrow> scan_state" where
  "testParam lib net page_url param st =
     (let testUrlXss = setParam lib page_url param urlXssPayload;
          st1 = (case fetchPage net testUrlXss no_options (countEndpoint st) of
                   (Inl err, s) \<Rightarrow> s
                 | (Inr res, s) \<Rightarrow>
                     if containsPayload (data res) urlXssPayload
                     then push (urlXssFinding param testUrlXss) s else s);
          testUrlSql = setParam lib page_url param urlSqliPayload
      in case fetchPage net testUrlSql no_options (countEndpoint st1) of
           (Inl err, s) \<Rightarrow> s
         | (Inr res, s) \<Rightarrow>
             if containsSQLError (data res)
             then push (urlSqliFinding param testUrlSql) s else s)"

definition scanUrlParams :: "library \<Rightarrow> network \<Rightarrow> string \<Rightarrow> scan_state \<Rightarrow> scan_state" where
  "scanUrlParams lib net page_url st =
     (case searchParams lib page_url of
        None \<Rightarrow> st
      | Some params \<Rightarrow> fold (testParam lib net page_url) params st)"

definition domSink :: "string \<Rightarrow> bool" where
  "domSink s = (includesStr s ''innerHTML'' \<or> includesStr s ''document.write'')"

definition domCheck :: "string \<Rightarrow> document \<Rightarrow> scan_state \<Rightarrow> scan_state" where
  "domCheck page_url doc st =
     fold (\<lambda>s acc. if domSink s then push (domXssFinding page_url) acc else acc) (scripts doc) st"

definition serverCheck :: "response \<Rightarrow> scan_state \<Rightarrow> scan_state" where
  "serverCheck res st =
     (case server res of
        None \<Rightarrow> st
      | Some v \<Rightarrow> if v = [] then st else push (serverFinding v) st)"

definition dbErrorCheck :: "string \<Rightarrow> string \<Rightarrow> scan_state \<Rightarrow> scan_state" where
  "dbErrorCheck page_url html st =
     (if containsSQLError (Text html) then push (dbErrorFinding page_url) st else st)"

text \<open>
  \<open>scanPage(page)\<close> reads only \<open>page.url\<close>. Its return value is
  \<open>{success, error, data}\<close>; the state returned here holds \<open>data\<close> and the exchanges.
\<close>

record scan_output =
  success :: bool
  error_message :: "string option"
  out_state :: scan_state

definition scanPage :: "library \<Rightarrow> network \<Rightarrow> string \<Rightarrow> scan_output" where
  "scanPage lib net page_url =
     (case fetchPage net page_url no_options (init_state page_url) of
        (Inl err, st) \<Rightarrow> \<lparr>success = False, error_message = Some err, out_state = st\<rparr>
      | (Inr res, st) \<Rightarrow>
          (case data res of
             NonText \<Rightarrow> \<lparr>success = True, error_message = None, out_state = st\<rparr>
           | Text html \<Rightarrow>
               (let doc = load lib html;
                    st1 = st\<lparr>formsFound := length (forms doc)\<rparr>;
                    st2 = fold (scanForm lib net page_url) (forms doc) st1;
                    st3 = scanUrlParams lib net page_url st2;
                    st4 = domCheck page_url doc st3;
                    st5 = serverCheck res st4;
                    st6 = dbErrorCheck page_url html st5
                in \<lparr>success = True, error_message = None, out_state = st6\<rparr>)))"

section \<open>Vocabulary of the statements about the page scanner\<close>

text \<open>Whether an exchange confirms a payload: a response arrived and reflects it.\<close>

definition confirmsXss :: "string \<Rightarrow> exchange \<Rightarrow> bool" where
  "confirmsXss payload ex =
     (case snd ex of Received res \<Rightarrow> containsPayload (data res) payload | NoResponse m \<Rightarrow> False)"

text \<open>
  The findings one fuzzed input can add, in their order: the XSS finding, if any, then
  the SQL injection finding, if any.
\<close>

definition inputOrder :: "string \<Rightarrow> string \<Rightarrow> element \<Rightarrow> finding list \<Rightarrow> bool" where
  "inputOrder method targetUrl input l =
     (case name_attr input of
        None \<Rightarrow> l = []
      | Some nm \<Rightarrow>
          if nm = [] then l = []
          else l \<in> {[], [xssFinding nm method targetUrl], [sqliFinding nm method targetUrl],
                    [xssFinding nm method targetUrl, sqliFinding nm method targetUrl]})"

text \<open>
  The findings one form can add: its CSRF finding first, when the code's test holds, then
  the findings of its fuzzed inputs, input by input.
\<close>

definition csrfPart :: "library \<Rightarrow> string \<Rightarrow> form \<Rightarrow> finding list" where
  "csrfPart lib targetUrl f =
     (if formMethod f = ''POST'' \<and> length (sensitiveInputs lib f) > 0
         \<and> length (csrfTokens lib f) = 0
      then [csrfFinding targetUrl] else [])"

definition formOrder :: "library \<Rightarrow> string \<Rightarrow> form \<Rightarrow> finding list \<Rightarrow> bool" where
  "formOrder lib page_url f l \<longleftrightarrow>
     (\<exists>ls. l = csrfPart lib (formTarget lib page_url f) f @ concat ls
          \<and> list_all2 (inputOrder (formMethod f) (formTarget lib page_url f))
               (fuzzInputs lib f) ls)"

text \<open>The findings one URL parameter can add: XSS, if any, then SQL injection, if any.\<close>

definition paramOrder :: "library \<Rightarrow> string \<Rightarrow> string \<Rightarrow> finding list \<Rightarrow> bool" where
  "paramOrder lib page_url param l \<longleftrightarrow>
     l \<in> {[],
          [urlXssFinding param (setParam lib page_url param urlXssPayload)],
          [urlSqliFinding param (setParam lib page_url param urlSqliPayload)],
          [urlXssFinding param (setParam lib page_url param urlXssPayload),
           urlSqliFinding param (setParam lib page_url param urlSqliPayload)]}"

text \<open>
  The findings of the passive checks, in the order of the code: one DOM finding per
  script with a sink, the \<open>Server\<close> header, the database error on the page.
\<close>

definition passiveFindings :: "string \<Rightarrow> document \<Rightarrow> response \<Rightarrow> string \<Rightarrow> finding list" where
  "passiveFindings page_url doc res html =
     map (\<lambda>s. domXssFinding page_url) (filter domSink (scripts doc))
     @ (case server res of None \<Rightarrow> [] | Some v \<Rightarrow> if v = [] then [] else [serverFinding v])
     @ (if containsSQLError (Text html) then [dbErrorFinding page_url] else [])"

text \<open>
  The probes one fuzzed input sends, in their order: XSS probes, one for each payload of
  a first part of the corpus, then SQL injection probes, likewise. An input without a
  name sends none.
\<close>

definition inputProbes ::
  "library \<Rightarrow> string \<Rightarrow> string \<Rightarrow> element list \<Rightarrow> element \<Rightarrow> exchange list \<Rightarrow> bool" where
  "inputProbes lib method targetUrl inputs input es =
     (case name_attr input of
        None \<Rightarrow> es = []
      | Some nm \<Rightarrow>
          if nm = [] then es = []
          else (\<exists>xs ss. es = xs @ ss \<and> xs \<noteq> [] \<and> ss \<noteq> []
                  \<and> map fst xs
                      = map (\<lambda>p. probeRequest lib method targetUrl
                                     (probeParams inputs nm ''test'' p))
                          (take (length xs) XSS_PAYLOADS)
                  \<and> map fst ss
                      = map (\<lambda>p. probeRequest lib method targetUrl
                                     (probeParams inputs nm ''1'' p))
                          (take (length ss) SQL_PAYLOADS)))"

text \<open>The probes one form sends: those of its fuzzed inputs, input by input.\<close>

definition formProbes :: "library \<Rightarrow> string \<Rightarrow> form \<Rightarrow> exchange list \<Rightarrow> bool" where
  "formProbes lib page_url f es \<longleftrightarrow>
     (\<exists>ess. es = concat ess
           \<and> list_all2 (inputProbes lib (formMethod f) (formTarget lib page_url f)
                          (fuzzInputs lib f))
                (fuzzInputs lib f) ess)"

text \<open>The probes one URL parameter sends: the XSS probe, then the SQL injection probe.\<close>

definition paramProbes :: "library \<Rightarrow> string \<Rightarrow> string \<Rightarrow> exchange list \<Rightarrow> bool" where
  "paramProbes lib page_url param es \<longleftrightarrow>
     map fst es = [axios_request (setParam lib page_url param urlXssPayload) no_options,
                   axios_request (setParam lib page_url param urlSqliPayload) no_options]"

text \<open>
  The spec's condition for a CSRF finding, in its words: the method is POST, the form
  has a sensitive input (type password, or a name containing password or email), and it
  has no hidden input whose name contains csrf or token.
\<close>

definition csrf_spec :: "library \<Rightarrow> form \<Rightarrow> bool" where
  "csrf_spec lib f \<longleftrightarrow>
     formMethod f = ''POST''
     \<and> (\<exists>e \<in> set (elements f).
           tag e = ''input''
           \<and> (hasType lib ''password'' e \<or> nameContains ''password'' e
                \<or> nameContains ''email'' e))
     \<and> \<not> (\<exists>e \<in> set (elements f).
           tag e = ''input'' \<and> hasType lib ''hidden'' e
           \<and> (nameContains ''csrf'' e \<or> nameContains ''token'' e))"

section \<open>Example sites\<close>

text \<open>A server that answers every request with status 500 and an HTML error page.\<close>

definition error_page :: response where
  "error_page = \<lparr>status = 500, server = None, data = Text ''<h1>Internal Server Error</h1>''\<rparr>"

definition net500 :: network where
  "net500 h rq = Received error_page"

text \<open>
  A server that answers every request with a JSON document (parsed by the HTTP client
  into an object, not a string) and a \<open>Server\<close> header.
\<close>

definition json_response :: response where
  "json_response = \<lparr>status = 200, server = Some ''nginx/1.18.0'', data = NonText\<rparr>"

definition netJson :: network where
  "netJson h rq = Received json_response"

text \<open>A library instance for the examples: no forms, no scripts, no query parameters.\<close>

definition plainLib :: library where
  "plainLib =
     \<lparr>load = (\<lambda>html. \<lparr>forms = [], scripts = []\<rparr>),
      typeEq = (\<lambda>v t. toLowerCase v = t),
      resolve = (\<lambda>rel base. Some rel),
      searchParams = (\<lambda>u. Some []),
      setParam = (\<lambda>u p v. u),
      encode = (\<lambda>ps. concat (map (\<lambda>(k, v). k @ ''='' @ v @ ''&'') ps))\<rparr>"

text \<open>
  A server that echoes the URL and the body of every request in an HTML page, with a
  \<open>Server\<close> header. The library of the login example leaves percent-encoding out,
  so that what the server echoes is what the worker sent.
\<close>

definition echoNet :: network where
  "echoNet h rq =
     Received \<lparr>status = 200, server = Some ''nginx/1.18.0'',
               data = Text (''<html><body>'' @ req_url rq
                            @ (case req_data rq of None \<Rightarrow> [] | Some d \<Rightarrow> d)
                            @ ''</body></html>'')\<rparr>"

text \<open>A login page with one form: \<open>method=post action=/save\<close>, one password input.\<close>

definition loginUrl :: string where
  "loginUrl = ''http://t.example/login''"

definition pwInput :: element where
  "pwInput = \<lparr>tag = ''input'', type_attr = Some ''password'', name_attr = Some ''pw''\<rparr>"

definition loginForm :: form where
  "loginForm =
     \<lparr>action_attr = Some ''/save'', method_attr = Some ''post'', elements = [pwInput]\<rparr>"

definition loginLib :: library where
  "loginLib =
     plainLib\<lparr>load := (\<lambda>html. \<lparr>forms = [loginForm], scripts = []\<rparr>),
              resolve := (\<lambda>rel base. Some (''http://t.example'' @ rel))\<rparr>"

text \<open>
  The serialisation \<open>application/x-www-form-urlencoded\<close> of \<open>URLSearchParams\<close>: the
  letters, the digits and \<open>*-._\<close> are written as they are, a space as \<open>+\<close>, every
  other byte as \<open>%\<close> and two hexadecimal digits in upper case; pairs are written
  \<open>name=value\<close> and joined by \<open>&\<close>. The strings of the example are ASCII, one byte
  a character.
\<close>

definition hexDigits :: string where
  "hexDigits = ''0123456789ABCDEF''"

definition unreserved :: string where
  "unreserved = ''*-._0123456789ABCDEFGHIJKLMNOPQRSTUVWXYZabcdefghijklmnopqrstuvwxyz''"

definition formEncodeChar :: "char \<Rightarrow> string" where
  "formEncodeChar c =
     (if c \<in> set unreserved then [c]
      else if c = CHR '' '' then ''+''
      else [CHR ''%'', hexDigits ! (of_char c div 16), hexDigits ! (of_char c mod 16)])"

definition formEncode :: "string \<Rightarrow> string" where
  "formEncode s = concat (map formEncodeChar s)"

definition formPair :: "string \<times> string \<Rightarrow> string" where
  "formPair p = formEncode (fst p) @ ''='' @ formEncode (snd p)"

definition urlencoded :: "(string \<times> string) list \<Rightarrow> string" where
  "urlencoded ps =
     (case ps of
        [] \<Rightarrow> []
      | p # rest \<Rightarrow> formPair p @ concat (map (\<lambda>q. ''&'' @ formPair q) rest))"

text \<open>
  The decoding a server applies to a query string: \<open>+\<close> is a space, \<open>%\<close> with two
  hexadecimal digits is the byte they denote.
\<close>

definition hexValue :: "char \<Rightarrow> nat option" where
  "hexValue c =
     (let i = length (takeWhile (\<lambda>d. d \<noteq> c) ''0123456789ABCDEF'');
          j = length (takeWhile (\<lambda>d. d \<noteq> c) ''0123456789abcdef'')
      in if i < 16 then Some i else if j < 16 then Some j else None)"

fun formDecode :: "string \<Rightarrow> string" where
  "formDecode [] = []"
| "formDecode (c # cs) =
     (if c = CHR ''+'' then CHR '' '' # formDecode cs
      else if c = CHR ''%''
      then (case cs of
              h # l # rest \<Rightarrow>
                (case (hexValue h, hexValue l) of
                   (Some a, Some b) \<Rightarrow> char_of (16 * a + b) # formDecode rest
                 | _ \<Rightarrow> c # formDecode cs)
            | _ \<Rightarrow> c # formDecode cs)
      else c # formDecode cs)"

declare formDecode.simps [simp del]

text \<open>
  A vulnerable search page, \<open>http://t.example/search?q=foo\<close>. The server answers
  every request with the page: its search form, \<open>method=get action=/search\<close> with
  the text input \<open>q\<close>, and the decoded URL of the request, followed by the error
  message of its database when the decoded URL holds a single quote; every response
  has a \<open>Server\<close> header.
\<close>

definition searchUrl :: string where
  "searchUrl = ''http://t.example/search?q=foo''"

definition searchFormHtml :: string where
  \<open>searchFormHtml = ''<form action="/search" method="get"><input type="text" name="q"></form>''\<close>

definition searchBody :: "string \<Rightarrow> string" where
  "searchBody sent =
     ''<html><body>'' @ searchFormHtml @ ''<p>'' @ sent @ ''</p>''
     @ (if CHR 0x27 \<in> set sent then ''<p>You have an error in your SQL syntax</p>'' else [])
     @ ''</body></html>''"

definition searchPage :: "request \<Rightarrow> response" where
  "searchPage rq =
     \<lparr>status = 200, server = Some ''nginx/1.18.0'',
      data = Text (searchBody (formDecode (req_url rq)))\<rparr>"

definition searchHtml :: string where
  \<comment> \<open>the page as the server writes it for the URL of the page\<close>
  \<open>searchHtml = ''<html><body><form action="/search" method="get"><input type="text" name="q"></form><p>http://t.example/search?q=foo</p></body></html>''\<close>

definition searchNet :: network where
  "searchNet h rq = Received (searchPage rq)"

text \<open>
  The libraries on the search page: the parse of a document that holds the markup of
  the search form finds the form and no script; relative URLs are resolved against the
  host; the URL of the page has the one parameter \<open>q\<close>, and setting it writes the
  query anew, serialised.
\<close>

definition qInput :: element where
  "qInput = \<lparr>tag = ''input'', type_attr = Some ''text'', name_attr = Some ''q''\<rparr>"

definition searchForm :: form where
  "searchForm =
     \<lparr>action_attr = Some ''/search'', method_attr = Some ''get'', elements = [qInput]\<rparr>"

definition searchLib :: library where
  "searchLib =
     \<lparr>load = (\<lambda>html. if includesStr html searchFormHtml
                      then \<lparr>forms = [searchForm], scripts = []\<rparr>
                      else \<lparr>forms = [], scripts = []\<rparr>),
      typeEq = (\<lambda>v t. toLowerCase v = t),
      resolve = (\<lambda>rel base. Some (''http://t.example'' @ rel)),
      searchParams = (\<lambda>u. Some [''q'']),
      setParam = (\<lambda>u p v. takeWhile (\<lambda>c. c \<noteq> CHR ''?'') u @ ''?'' @ urlencoded [(p, v)]),
      encode = urlencoded\<rparr>"

section \<open>The crawler (server/web-crawler.ts)\<close>

text \<open>
  A crawled page. Its forms are what \<open>extractForms\<close> returns; no decision of the
  crawl reads them, and they are carried as they come.
\<close>

record 'f crawled_page =
  url :: string
  title :: string
  links :: "string list"
  page_forms :: "'f list"
  depth :: nat

record crawl_options =
  maxDepth :: nat
  maxPages :: nat
  sameDomainOnly :: bool
  includePatterns :: "string list"
  excludePatterns :: "string list"
  relevantKeywords :: "string list"

definition defaultOptions :: crawl_options where
  "defaultOptions =
     \<lparr>maxDepth = 3, maxPages = 20, sameDomainOnly = False,
      includePatterns =
        [''dashboard'', ''admin'', ''settings'', ''profile'', ''account'',
         ''home'', ''index'', ''main'', ''login'', ''register'',
         ''users'', ''products'', ''services'', ''pages'',
         ''api'', ''v1'', ''v2'', ''endpoints''],
      excludePatterns =
        [''logout'', ''signout'', ''unsubscribe'',
         ''delete'', ''remove'', ''destroy'',
         ''cdn'', ''static'', ''assets'', ''images'',
         ''css'', ''js'', ''jpg'', ''png'', ''gif'', ''pdf'', ''zip'',
         ''facebook.com'', ''twitter.com'', ''linkedin.com'',
         ''google.com'', ''youtube.com'', ''instagram.com''],
      relevantKeywords =
        [''dashboard'', ''admin'', ''settings'', ''profile'', ''account'',
         ''user'', ''login'', ''register'', ''home'', ''main'',
         ''product'', ''service'', ''page'', ''content'']\<rparr>"

text \<open>
  \<open>new URL(s)\<close> is a parameter: \<open>None\<close> when it throws, the \<open>hostname\<close> and
  \<open>pathname\<close> of the URL object otherwise.
\<close>

record url_object =
  hostname :: string
  pathname :: string

type_synonym url_parser = "string \<Rightarrow> url_object option"

text \<open>\<open>s.split(c)\<close> and \<open>parts.join(sep)\<close>.\<close>

fun split :: "char \<Rightarrow> string \<Rightarrow> string list" where
  "split c [] = [[]]"
| "split c (x # xs) =
     (if x = c then [] # split c xs
      else (case split c xs of [] \<Rightarrow> [[x]] | w # ws \<Rightarrow> (x # w) # ws))"

fun join :: "string \<Rightarrow> string list \<Rightarrow> string" where
  "join sep [] = []"
| "join sep [w] = w"
| "join sep (w # ws) = w @ sep @ join sep ws"

definition rootDomain :: "string \<Rightarrow> string" where
  "rootDomain baseDomain =
     (let parts = split CHR ''.'' baseDomain
      in if length parts > 2 then join ''.'' (drop (length parts - 2) parts) else baseDomain)"

definition excludedExtensions :: "string list" where
  "excludedExtensions =
     [''.css'', ''.js'', ''.jpg'', ''.png'', ''.gif'', ''.pdf'', ''.zip'', ''.svg'', ''.ico'']"

definition shouldCrawlUrl :: "crawl_options \<Rightarrow> url_parser \<Rightarrow> string \<Rightarrow> string \<Rightarrow> bool" where
  "shouldCrawlUrl opts parse baseDomain u =
     (case parse u of
        None \<Rightarrow> False
      | Some urlObj \<Rightarrow>
          (let path = toLowerCase (pathname urlObj) in
           if (if sameDomainOnly opts then hostname urlObj \<noteq> baseDomain
               else \<not> endsWith (hostname urlObj) (rootDomain baseDomain))
           then False
           else if list_ex (\<lambda>pattern. includesStr (toLowerCase u) (toLowerCase pattern))
                     (excludePatterns opts)
           then False
           else if includePatterns opts \<noteq> []
                   \<and> \<not> list_ex (\<lambda>pattern. includesStr (toLowerCase u) (toLowerCase pattern))
                          (includePatterns opts)
                   \<and> \<not> list_ex (\<lambda>keyword. includesStr path (toLowerCase keyword)
                                          \<or> path = ''/'' \<or> path = [])
                          (relevantKeywords opts)
           then False
           else if list_ex (\<lambda>ext. endsWith path ext) excludedExtensions
           then False
           else True))"

text \<open>
  What a successful \<open>axios.get\<close> and \<open>cheerio.load\<close> give the crawler for a URL: the
  trimmed text of the title, the \<open>href\<close> of each anchor resolved against the page URL
  (in document order, the empty and the unresolvable ones dropped), and the extracted
  forms. The site is a parameter: \<open>None\<close> when the request or the parse throws.
\<close>

record 'f fetched =
  title_text :: string
  hrefs :: "string list"
  found_forms :: "'f list"

type_synonym 'f site = "string \<Rightarrow> 'f fetched option"

record 'f crawl_state =
  visitedUrls :: "string set"
  crawledPages :: "'f crawled_page list"

text \<open>\<open>[...new Set(links)]\<close>: the first occurrence of each link, in order.\<close>

fun uniq :: "string list \<Rightarrow> string list" where
  "uniq [] = []"
| "uniq (x # xs) = x # uniq (filter (\<lambda>y. y \<noteq> x) xs)"

definition extractLinks ::
  "crawl_options \<Rightarrow> url_parser \<Rightarrow> string \<Rightarrow> 'f crawl_state \<Rightarrow> string list \<Rightarrow> string list" where
  "extractLinks opts parse baseDomain st hs =
     uniq (filter (\<lambda>absoluteUrl. shouldCrawlUrl opts parse baseDomain absoluteUrl
                                  \<and> absoluteUrl \<notin> visitedUrls st) hs)"

text \<open>
  \<open>crawlPage\<close> and the loop over the discovered links at its end: the loop calls
  \<open>crawlPage\<close> for a link, and awaits it, before it looks at the next link.
\<close>

function crawlPage ::
    "crawl_options \<Rightarrow> url_parser \<Rightarrow> 'f site \<Rightarrow> string \<Rightarrow> string \<Rightarrow> nat \<Rightarrow> 'f crawl_state
       \<Rightarrow> 'f crawl_state"
  and crawlLinks ::
    "crawl_options \<Rightarrow> url_parser \<Rightarrow> 'f site \<Rightarrow> string \<Rightarrow> string list \<Rightarrow> nat \<Rightarrow> 'f crawl_state
       \<Rightarrow> 'f crawl_state"
where
  "crawlPage opts parse site baseDomain u d st =
     (if d > maxDepth opts then st
      else if u \<in> visitedUrls st then st
      else if length (crawledPages st) \<ge> maxPages opts then st
      else if \<not> shouldCrawlUrl opts parse baseDomain u then st
      else
        (let st1 = st\<lparr>visitedUrls := insert u (visitedUrls st)\<rparr> in
         case site u of
           None \<Rightarrow> st1
         | Some got \<Rightarrow>
             (let lks = extractLinks opts parse baseDomain st1 (hrefs got);
                  page = \<lparr>url = u,
                          title = (if title_text got = [] then ''No Title'' else title_text got),
                          links = lks, page_forms = found_forms got, depth = d\<rparr>;
                  st2 = st1\<lparr>crawledPages := crawledPages st1 @ [page]\<rparr>
              in crawlLinks opts parse site baseDomain lks d st2)))"
| "crawlLinks opts parse site baseDomain [] d st = st"
| "crawlLinks opts parse site baseDomain (link # rest) d st =
     crawlLinks opts parse site baseDomain rest d
       (if length (crawledPages st) < maxPages opts \<and> link \<notin> visitedUrls st
        then crawlPage opts parse site baseDomain link (d + 1) st
        else st)"
  by pat_completeness auto

termination
  by (relation
        "measures
           [\<lambda>x. case x of
                   Inl (opts, parse, site, baseDomain, u, d, st) \<Rightarrow> 2 * (Suc (maxDepth opts) - d)
                 | Inr (opts, parse, site, baseDomain, ls, d, st) \<Rightarrow>
                     2 * (Suc (maxDepth opts) - d) - 1,
            \<lambda>x. case x of
                   Inl (opts, parse, site, baseDomain, u, d, st) \<Rightarrow> 0
                 | Inr (opts, parse, site, baseDomain, ls, d, st) \<Rightarrow> length ls]")
     auto

declare crawlPage.simps [simp del]

definition crawl :: "crawl_options \<Rightarrow> url_parser \<Rightarrow> 'f site \<Rightarrow> string \<Rightarrow> 'f crawled_page list" where
  "crawl opts parse site startUrl =
     (case parse startUrl of
        None \<Rightarrow> []
      | Some u \<Rightarrow>
          crawledPages
            (crawlPage opts parse site (hostname u) startUrl 0
               \<lparr>visitedUrls = {}, crawledPages = []\<rparr>))"

text \<open>
  The bounds of a crawl, as a property of the crawler's state: every result page is in
  scope and within the depth limit, and the result list is within the page limit.
\<close>

definition crawl_ok :: "crawl_options \<Rightarrow> url_parser \<Rightarrow> string \<Rightarrow> 'f crawl_state \<Rightarrow> bool" where
  "crawl_ok opts parse baseDomain st \<longleftrightarrow>
     (\<forall>p \<in> set (crawledPages st).
        shouldCrawlUrl opts parse baseDomain (url p) \<and> depth p \<le> maxDepth opts)
     \<and> length (crawledPages st) \<le> maxPages opts"

section \<open>Example crawls\<close>

text \<open>
  A site of four pages: the home page links to \<open>/admin\<close> and \<open>/home\<close>, \<open>/admin\<close>
  links to \<open>/users\<close>, \<open>/home\<close> links back to the home page.
\<close>

definition tParse :: url_parser where
  "tParse = map_of
     [(''http://t.com/'', \<lparr>hostname = ''t.com'', pathname = ''/''\<rparr>),
      (''http://t.com/admin'', \<lparr>hostname = ''t.com'', pathname = ''/admin''\<rparr>),
      (''http://t.com/users'', \<lparr>hostname = ''t.com'', pathname = ''/users''\<rparr>),
      (''http://t.com/home'', \<lparr>hostname = ''t.com'', pathname = ''/home''\<rparr>)]"

definition tSite :: "unit site" where
  "tSite = map_of
     [(''http://t.com/'',
         \<lparr>title_text = ''T'', hrefs = [''http://t.com/admin'', ''http://t.com/home''],
          found_forms = []\<rparr>),
      (''http://t.com/admin'',
         \<lparr>title_text = ''Admin'', hrefs = [''http://t.com/users''], found_forms = []\<rparr>),
      (''http://t.com/users'',
         \<lparr>title_text = ''Users'', hrefs = [], found_forms = []\<rparr>),
      (''http://t.com/home'',
         \<lparr>title_text = ''Home'', hrefs = [''http://t.com/''], found_forms = []\<rparr>)]"

text \<open>
  A seed on \<open>testphp.vulnweb.com\<close> and a candidate on the unrelated registrable domain
  \<open>evilvulnweb.com\<close>.
\<close>

definition vParse :: url_parser where
  "vParse = map_of
     [(''http://testphp.vulnweb.com/'', \<lparr>hostname = ''testphp.vulnweb.com'', pathname = ''/''\<rparr>),
      (''http://evilvulnweb.com/'', \<lparr>hostname = ''evilvulnweb.com'', pathname = ''/''\<rparr>)]"

section \<open>JavaScript numbers\<close>

text \<open>
  A JavaScript number is an IEEE 754 double. A finite double is taken as the rational
  it denotes, and an arithmetic operation returns its exact result rounded to the
  nearest double, a tie going to the even significand of 53 bits. The exponent is not
  bounded here: the counters of a scan are integers below \<open>2^53\<close>, which are doubles,
  and their quotients and percentages are far from overflow and underflow.
\<close>

definition ilog2 :: "rat \<Rightarrow> int" where
  \<comment> \<open>the exponent \<open>e\<close> of a positive \<open>x\<close>: \<open>2^e \<le> x < 2^(e+1)\<close>\<close>
  "ilog2 x =
     (let d = bitlen (fst (quotient_of x)) - bitlen (snd (quotient_of x))
      in if 2 powi d \<le> x then d else d - 1)"

definition rne :: "rat \<Rightarrow> int" where
  \<comment> \<open>the nearest integer, a tie going to the even one\<close>
  "rne y =
     (let f = \<lfloor>y\<rfloor>; r = y - of_int f
      in if r < 1 / 2 then f else if 1 / 2 < r then f + 1 else if even f then f else f + 1)"

definition fl :: "rat \<Rightarrow> rat" where
  \<comment> \<open>the nearest double: a multiple of \<open>2^(e-52)\<close>, where \<open>e\<close> is the exponent\<close>
  "fl x =
     (let u = 2 powi (ilog2 \<bar>x\<bar> - 52)
      in sgn x * of_int (rne (\<bar>x\<bar> / u)) * u)"

definition js_div :: "rat \<Rightarrow> rat \<Rightarrow> rat" where
  "js_div a b = fl (a / b)"

definition js_mul :: "rat \<Rightarrow> rat \<Rightarrow> rat" where
  "js_mul a b = fl (a * b)"

definition js_add :: "rat \<Rightarrow> rat \<Rightarrow> rat" where
  "js_add a b = fl (a + b)"

definition Math_round :: "rat \<Rightarrow> int" where
  \<comment> \<open>the nearest integer, a tie going up\<close>
  "Math_round x = \<lfloor>x + 1 / 2\<rfloor>"

section \<open>Progress events (the WebSocket server and the worker pool)\<close>

text \<open>
  \<open>Math.round((a / b) * k)\<close> for counters \<open>a\<close>, \<open>b > 0\<close> and a constant \<open>k\<close>: the
  quotient is rounded to a double, then the product, then \<open>Math.round\<close> is taken.
\<close>

definition round_scaled :: "nat \<Rightarrow> nat \<Rightarrow> nat \<Rightarrow> nat" where
  "round_scaled a b k = nat (Math_round (js_mul (js_div (of_nat a) (of_nat b)) (of_nat k)))"

text \<open>
  \<open>Math.round(30 + (pagesScanned / Math.max(totalPages, 1)) * 70)\<close>, the percentage of
  a scanning event.
\<close>

definition scanning_percent :: "nat \<Rightarrow> nat \<Rightarrow> nat" where
  "scanning_percent pagesScanned pages =
     (let scanningProgress = js_mul (js_div (of_nat pagesScanned) (of_nat (max pages 1))) 70
      in nat (Math_round (js_add 30 scanningProgress)))"

text \<open>
  The progress record of a scan. Of its fields, \<open>estimatedTimeRemaining\<close> and
  \<open>startTime\<close> are readings of the clock, \<open>currentStage\<close> is a message, and
  \<open>vulnerabilities\<close> is the list behind \<open>vulnerabilitiesFound\<close>; they are left out.
\<close>

record scan_progress =
  prog_status :: string
  progress :: nat
  prog_pagesScanned :: nat
  totalPages :: nat
  vulnerabilitiesFound :: nat
  prog_formsFound :: nat
  prog_endpointsTested :: nat

text \<open>
  The server: the map \<open>scanProgress\<close>, and the \<open>scan-progress\<close> and
  \<open>scan-error\<close> events it has emitted, each with the scan it went to.
\<close>

record ws_server =
  scanProgress :: "string \<rightharpoonup> scan_progress"
  broadcasts :: "(string \<times> scan_progress) list"
  scan_errors :: "(string \<times> string) list"

definition broadcastProgress :: "string \<Rightarrow> scan_progress \<Rightarrow> ws_server \<Rightarrow> ws_server" where
  "broadcastProgress sid p ws = ws\<lparr>broadcasts := broadcasts ws @ [(sid, p)]\<rparr>"

definition startScan :: "string \<Rightarrow> nat \<Rightarrow> ws_server \<Rightarrow> ws_server" where
  "startScan sid pages ws =
     (let initialProgress =
            \<lparr>prog_status = ''crawling'', progress = 0, prog_pagesScanned = 0,
             totalPages = pages, vulnerabilitiesFound = 0, prog_formsFound = 0,
             prog_endpointsTested = 0\<rparr>
      in broadcastProgress sid initialProgress
           (ws\<lparr>scanProgress := (scanProgress ws)(sid \<mapsto> initialProgress)\<rparr>))"

definition updateCrawlingProgress :: "string \<Rightarrow> nat \<Rightarrow> ws_server \<Rightarrow> ws_server" where
  "updateCrawlingProgress sid pagesFound ws =
     (case scanProgress ws sid of
        None \<Rightarrow> ws
      | Some p \<Rightarrow>
          (let p1 = p\<lparr>prog_pagesScanned := pagesFound\<rparr>;
               p2 = p1\<lparr>totalPages := max (totalPages p1) pagesFound\<rparr>;
               p3 = p2\<lparr>progress := round_scaled pagesFound (max (totalPages p2) 1) 30\<rparr>
           in broadcastProgress sid p3
                (ws\<lparr>scanProgress := (scanProgress ws)(sid \<mapsto> p3)\<rparr>)))"

record scanning_update =
  upd_pagesScanned :: nat
  upd_vulnerabilitiesFound :: nat
  upd_formsFound :: nat
  upd_endpointsTested :: nat

definition updateScanningProgress :: "string \<Rightarrow> scanning_update \<Rightarrow> ws_server \<Rightarrow> ws_server" where
  "updateScanningProgress sid u ws =
     (case scanProgress ws sid of
        None \<Rightarrow> ws
      | Some p \<Rightarrow>
          (let p1 = p\<lparr>prog_pagesScanned := upd_pagesScanned u,
                       vulnerabilitiesFound := upd_vulnerabilitiesFound u,
                       prog_formsFound := upd_formsFound u,
                       prog_endpointsTested := upd_endpointsTested u\<rparr>;
               p2 = p1\<lparr>progress := scanning_percent (upd_pagesScanned u) (totalPages p1)\<rparr>;
               p3 = p2\<lparr>prog_status :=
                         (if upd_pagesScanned u \<ge> totalPages p2 then ''completed''
                          else ''scanning'')\<rparr>
           in broadcastProgress sid p3
                (ws\<lparr>scanProgress := (scanProgress ws)(sid \<mapsto> p3)\<rparr>)))"

definition errorScan :: "string \<Rightarrow> string \<Rightarrow> ws_server \<Rightarrow> ws_server" where
  "errorScan sid err ws =
     (case scanProgress ws sid of
        None \<Rightarrow> ws
      | Some p \<Rightarrow>
          (let p1 = p\<lparr>prog_status := ''error''\<rparr>;
               ws1 = broadcastProgress sid p1 (ws\<lparr>scanProgress := (scanProgress ws)(sid \<mapsto> p1)\<rparr>)
           in ws1\<lparr>scan_errors := scan_errors ws1 @ [(sid, err)]\<rparr>))"

text \<open>The \<open>scan-progress\<close> events the server has emitted for a scan, in order.\<close>

definition events_of :: "string \<Rightarrow> ws_server \<Rightarrow> scan_progress list" where
  "events_of sid ws = map snd (filter (\<lambda>e. fst e = sid) (broadcasts ws))"

text \<open>
  The worker pool's statistics of a scan, updated at each worker result, and the
  \<open>progress\<close> events it emits. The data of a result may be missing, and each of its
  fields may be missing or of another type.
\<close>

record pool_scan =
  pool_totalPages :: nat
  pool_pagesScanned :: nat
  pool_vulnerabilitiesFound :: nat
  pool_formsFound :: nat
  pool_endpointsTested :: nat

record worker_data =
  wd_vulnerabilities :: "finding list option"
  wd_formsFound :: "nat option"
  wd_endpointsTested :: "nat option"

record pool_event =
  ev_status :: string
  ev_progress :: nat
  ev_pagesScanned :: nat
  ev_totalPages :: nat
  ev_vulnerabilitiesFound :: nat
  ev_formsFound :: nat
  ev_endpointsTested :: nat

record worker_pool =
  scanStates :: "string \<rightharpoonup> pool_scan"
  emitted :: "(string \<times> pool_event) list"

text \<open>
  \<open>updateScanStats\<close>: the counters of the scan's state after one more worker result,
  the event emitted from them, and the removal of the state once every page is counted.
  Its \<open>taskId\<close> is \<open><scanId>::page-<index>\<close>; the scan is given here by its id.
\<close>

definition count_result :: "pool_scan \<Rightarrow> worker_data option \<Rightarrow> pool_scan" where
  "count_result state d =
     (let s1 = state\<lparr>pool_pagesScanned :=
                       min (pool_pagesScanned state + 1) (pool_totalPages state)\<rparr>
      in case d of
           None \<Rightarrow> s1
         | Some dat \<Rightarrow>
             s1\<lparr>pool_vulnerabilitiesFound :=
                   pool_vulnerabilitiesFound s1
                   + (case wd_vulnerabilities dat of None \<Rightarrow> 0 | Some vs \<Rightarrow> length vs),
                 pool_formsFound :=
                   pool_formsFound s1 + (case wd_formsFound dat of None \<Rightarrow> 0 | Some n \<Rightarrow> n),
                 pool_endpointsTested :=
                   pool_endpointsTested s1
                   + (case wd_endpointsTested dat of None \<Rightarrow> 0 | Some n \<Rightarrow> n)\<rparr>)"

definition progress_event :: "pool_scan \<Rightarrow> pool_event" where
  "progress_event state =
     \<lparr>ev_status = (if pool_pagesScanned state \<ge> pool_totalPages state then ''completed''
                   else ''running''),
      ev_progress =
        (if pool_totalPages state > 0
         then round_scaled (pool_pagesScanned state) (pool_totalPages state) 100
         else 0),
      ev_pagesScanned = pool_pagesScanned state,
      ev_totalPages = pool_totalPages state,
      ev_vulnerabilitiesFound = pool_vulnerabilitiesFound state,
      ev_formsFound = pool_formsFound state,
      ev_endpointsTested = pool_endpointsTested state\<rparr>"

definition updateScanStats :: "string \<Rightarrow> worker_data option \<Rightarrow> worker_pool \<Rightarrow> worker_pool" where
  "updateScanStats sid d pool =
     (case scanStates pool sid of
        None \<Rightarrow> pool
      | Some state \<Rightarrow>
          (let state' = count_result state d
           in \<lparr>scanStates =
                 (if pool_pagesScanned state' \<ge> pool_totalPages state'
                  then (scanStates pool)(sid := None)
                  else (scanStates pool)(sid \<mapsto> state')),
               emitted = emitted pool @ [(sid, progress_event state')]\<rparr>))"

definition pool_events :: "string \<Rightarrow> worker_pool \<Rightarrow> pool_event list" where
  "pool_events sid pool = map snd (filter (\<lambda>e. fst e = sid) (emitted pool))"

text \<open>
  \<open>scanPages\<close> for \<open>n\<close> pages. It puts a fresh state object into \<open>scanStates\<close>,
  awaits the tasks, and emits a last event from the object. While it waits, the
  results of the workers arrive, one after another; \<open>ds\<close> is their data, in the order
  they arrive. Of \<open>handleWorkerResult\<close> the call of \<open>updateScanStats\<close> is kept: the
  promise of the task, the count of requests and the queue do not touch the events. The
  state object is shared: what \<open>updateScanStats\<close> writes to the state it finds in the
  map, \<open>scanPages\<close> reads at the end, also after the state has left the map.
\<close>

definition newScanState :: "nat \<Rightarrow> pool_scan" where
  "newScanState n =
     \<lparr>pool_totalPages = n, pool_pagesScanned = 0, pool_vulnerabilitiesFound = 0,
      pool_formsFound = 0, pool_endpointsTested = 0\<rparr>"

definition handleWorkerResult ::
  "string \<Rightarrow> worker_data option \<Rightarrow> worker_pool \<times> pool_scan \<Rightarrow> worker_pool \<times> pool_scan" where
  \<comment> \<open>the pool, and the state object of \<open>scanPages\<close>, after a result\<close>
  "handleWorkerResult sid d ps =
     (case ps of
        (pool, state) \<Rightarrow>
          (updateScanStats sid d pool,
           case scanStates pool sid of None \<Rightarrow> state | Some s \<Rightarrow> count_result s d))"

definition completion_event :: "pool_scan \<Rightarrow> pool_event" where
  "completion_event state =
     \<lparr>ev_status = ''completed'', ev_progress = 100,
      ev_pagesScanned = pool_pagesScanned state,
      ev_totalPages = pool_totalPages state,
      ev_vulnerabilitiesFound = pool_vulnerabilitiesFound state,
      ev_formsFound = pool_formsFound state,
      ev_endpointsTested = pool_endpointsTested state\<rparr>"

definition scanPages ::
  "string \<Rightarrow> nat \<Rightarrow> worker_data option list \<Rightarrow> worker_pool \<Rightarrow> worker_pool \<times> pool_scan" where
  \<comment> \<open>the pool after the call, and the state object as the call leaves it\<close>
  "scanPages sid n ds pool =
     (let state = newScanState n;
          pool1 = pool\<lparr>scanStates := (scanStates pool)(sid \<mapsto> state)\<rparr>
      in case fold (handleWorkerResult sid) ds (pool1, state) of
           (pool2, state') \<Rightarrow>
             (pool2\<lparr>emitted := emitted pool2 @ [(sid, completion_event state')]\<rparr>, state'))"

text \<open>The events a call of \<open>scanPages\<close> emits for its scan.\<close>

definition scanPages_events ::
  "string \<Rightarrow> nat \<Rightarrow> worker_data option list \<Rightarrow> worker_pool \<Rightarrow> pool_event list" where
  "scanPages_events sid n ds pool =
     drop (length (pool_events sid pool)) (pool_events sid (fst (scanPages sid n ds pool)))"

text \<open>The events the calls publish, as functions of the record they update.\<close>

definition start_event :: "nat \<Rightarrow> scan_progress" where
  "start_event pages =
     \<lparr>prog_status = ''crawling'', progress = 0, prog_pagesScanned = 0,
      totalPages = pages, vulnerabilitiesFound = 0, prog_formsFound = 0,
      prog_endpointsTested = 0\<rparr>"

definition crawl_event :: "scan_progress \<Rightarrow> nat \<Rightarrow> scan_progress" where
  "crawl_event p c =
     p\<lparr>prog_pagesScanned := c,
       totalPages := max (totalPages p) c,
       progress := round_scaled c (max (max (totalPages p) c) 1) 30\<rparr>"

definition scan_event :: "scan_progress \<Rightarrow> scanning_update \<Rightarrow> scan_progress" where
  "scan_event p u =
     p\<lparr>prog_pagesScanned := upd_pagesScanned u,
       vulnerabilitiesFound := upd_vulnerabilitiesFound u,
       prog_formsFound := upd_formsFound u,
       prog_endpointsTested := upd_endpointsTested u,
       progress := scanning_percent (upd_pagesScanned u) (totalPages p),
       prog_status := (if upd_pagesScanned u \<ge> totalPages p then ''completed''
                       else ''scanning'')\<rparr>"

text \<open>The percentage of a pool event.\<close>

definition pool_percent :: "nat \<Rightarrow> nat \<Rightarrow> nat" where
  "pool_percent pages scanned = (if pages > 0 then round_scaled scanned pages 100 else 0)"

text \<open>A pool event that is not behind a state of the scan.\<close>

definition pool_le :: "pool_scan \<Rightarrow> pool_event \<Rightarrow> bool" where
  "pool_le st e \<longleftrightarrow>
     pool_pagesScanned st \<le> ev_pagesScanned e
     \<and> pool_vulnerabilitiesFound st \<le> ev_vulnerabilitiesFound e
     \<and> pool_formsFound st \<le> ev_formsFound e
     \<and> pool_endpointsTested st \<le> ev_endpointsTested e
     \<and> ev_totalPages e = pool_totalPages st
     \<and> ev_progress e = pool_percent (pool_totalPages st) (ev_pagesScanned e)"

text \<open>A pool event that is not ahead of a state of the scan.\<close>

definition pool_ge :: "pool_scan \<Rightarrow> pool_event \<Rightarrow> bool" where
  "pool_ge st e \<longleftrightarrow>
     ev_pagesScanned e \<le> pool_pagesScanned st
     \<and> ev_vulnerabilitiesFound e \<le> pool_vulnerabilitiesFound st
     \<and> ev_formsFound e \<le> pool_formsFound st
     \<and> ev_endpointsTested e \<le> pool_endpointsTested st"

text \<open>
  Example data: a server with no scan, and the data of a worker for a page with one
  form, where thirteen probes found one vulnerability.
\<close>

definition emptyServer :: ws_server where
  "emptyServer = \<lparr>scanProgress = Map.empty, broadcasts = [], scan_errors = []\<rparr>"

definition emptyPool :: worker_pool where
  "emptyPool = \<lparr>scanStates = Map.empty, emitted = []\<rparr>"

definition pageData :: "worker_data option" where
  "pageData =
     Some \<lparr>wd_vulnerabilities = Some [serverFinding ''nginx/1.18.0''], wd_formsFound = Some 1,
           wd_endpointsTested = Some 13\<rparr>"

definition plainData :: "worker_data option" where
  "plainData =
     Some \<lparr>wd_vulnerabilities = Some [], wd_formsFound = Some 0, wd_endpointsTested = Some 0\<rparr>"

section \<open>The scan request (server/routes.ts, server/storage.ts)\<close>

text \<open>
  The persisted scan. \<open>crawlStats\<close> is an object of counters, \<open>{}\<close> when there is
  none; \<open>completedAt\<close> is a reading of the clock, given to the run as \<open>now\<close>.
\<close>

record scan =
  scan_url :: string
  scan_status :: string
  scan_vulnerabilities :: "finding list"
  scan_pagesScanned :: nat
  scan_crawlStats :: "(string \<times> nat) list"
  scan_completedAt :: "nat option"

type_synonym storage = "string \<rightharpoonup> scan"

definition createScan :: "string \<Rightarrow> string \<Rightarrow> storage \<Rightarrow> storage" where
  \<comment> \<open>the id is \<open>randomUUID()\<close>, given here\<close>
  "createScan sid u store =
     store(sid \<mapsto> \<lparr>scan_url = u, scan_status = ''pending'', scan_vulnerabilities = [],
                    scan_pagesScanned = 0, scan_crawlStats = [], scan_completedAt = None\<rparr>)"

definition updateScan :: "string \<Rightarrow> (scan \<Rightarrow> scan) \<Rightarrow> storage \<Rightarrow> storage" where
  \<comment> \<open>\<open>{ ...scan, ...updates }\<close>: the updates are the fields a function sets\<close>
  "updateScan sid updates store =
     (case store sid of None \<Rightarrow> store | Some sc \<Rightarrow> store(sid \<mapsto> updates sc))"

text \<open>
  \<open>new VulnerabilityScanner(url, scanId, wsServer).scan()\<close> is not part of the sources
  at hand and is a parameter: from the server it is given to its outcome, the message
  of the error when the promise rejects, and the server as it leaves it.
\<close>

record scanner_result =
  res_vulnerabilities :: "finding list"
  res_pagesScanned :: nat
  res_crawlStats :: "(string \<times> nat) list option"

type_synonym scanner = "ws_server option \<Rightarrow> (string + scanner_result) \<times> ws_server option"

record perform_result =
  pr_vulnerabilities :: "finding list"
  pr_pagesScanned :: nat
  pr_crawlStats :: "(string \<times> nat) list"

definition scanErrorFinding :: "string \<Rightarrow> string \<Rightarrow> finding" where
  "scanErrorFinding u msg =
     \<lparr>vuln_id = ''scan-error'', name = ''Scan Error'', severity = ''Low'',
      description = ''Unable to scan the target website: '' @ msg
        @ ''. This could be due to network issues, the website being down, or the website blocking automated scanning.'',
      location = u,
      impact = ''No vulnerabilities could be detected due to scan failure. Manual testing may be required.'',
      category = ''Information Disclosure''\<rparr>"

definition performVulnerabilityScan ::
  "scanner \<Rightarrow> string \<Rightarrow> string \<Rightarrow> ws_server option \<Rightarrow> perform_result \<times> ws_server option" where
  "performVulnerabilityScan scanner u sid wsServer =
     (case scanner (map_option (startScan sid 0) wsServer) of
        (Inr result, ws) \<Rightarrow>
          (\<lparr>pr_vulnerabilities = res_vulnerabilities result,
            pr_pagesScanned = res_pagesScanned result,
            pr_crawlStats = (case res_crawlStats result of None \<Rightarrow> [] | Some c \<Rightarrow> c)\<rparr>, ws)
      | (Inl msg, ws) \<Rightarrow>
          (\<lparr>pr_vulnerabilities = [scanErrorFinding u msg], pr_pagesScanned = 0,
            pr_crawlStats = []\<rparr>,
           map_option (errorScan sid (''Scan failed: '' @ msg)) ws))"

text \<open>
  \<open>completeScan\<close> as the route calls it: \<open>formsFound\<close> and \<open>endpointsTested\<close> are
  read from the scan result, which has neither, and are 0.
\<close>

definition completeScan :: "string \<Rightarrow> perform_result \<Rightarrow> ws_server \<Rightarrow> ws_server" where
  "completeScan sid finalStats ws =
     (case scanProgress ws sid of
        None \<Rightarrow> ws
      | Some p \<Rightarrow>
          (let p1 = p\<lparr>prog_pagesScanned :=
                        (if pr_pagesScanned finalStats = 0 then prog_pagesScanned p
                         else pr_pagesScanned finalStats),
                      vulnerabilitiesFound := length (pr_vulnerabilities finalStats),
                      prog_formsFound := 0,
                      prog_endpointsTested := 0,
                      progress := 100,
                      prog_status := ''completed''\<rparr>
           in broadcastProgress sid p1 (ws\<lparr>scanProgress := (scanProgress ws)(sid \<mapsto> p1)\<rparr>)))"

text \<open>
  The background task of \<open>POST /api/scans\<close> for the scan just created. None of the
  calls it awaits throws here, so its \<open>catch\<close>, which would set the status to
  \<open>failed\<close>, is not entered.
\<close>

definition backgroundScan ::
  "scanner \<Rightarrow> nat \<Rightarrow> string \<Rightarrow> string \<Rightarrow> storage \<Rightarrow> ws_server option
     \<Rightarrow> storage \<times> ws_server option" where
  "backgroundScan scanner now sid u store wsServer =
     (let store1 = updateScan sid (\<lambda>sc. sc\<lparr>scan_status := ''scanning''\<rparr>) store
      in case performVulnerabilityScan scanner u sid wsServer of
           (scanResult, ws) \<Rightarrow>
             (updateScan sid
                (\<lambda>sc. sc\<lparr>scan_status := ''completed'',
                          scan_vulnerabilities := pr_vulnerabilities scanResult,
                          scan_pagesScanned := pr_pagesScanned scanResult,
                          scan_crawlStats := pr_crawlStats scanResult,
                          scan_completedAt := Some now\<rparr>) store1,
              map_option (completeScan sid scanResult) ws))"

text \<open>A scanner whose scan rejects: the seed could not be reached.\<close>

definition failingScanner :: scanner where
  "failingScanner ws = (Inl ''connect ECONNREFUSED 10.0.0.1:80'', ws)"

section \<open>A whole scan\<close>

text \<open>The events \<open>completeScan\<close> and \<open>errorScan\<close> publish, as functions of the record.\<close>

definition complete_event :: "scan_progress \<Rightarrow> perform_result \<Rightarrow> scan_progress" where
  "complete_event p finalStats =
     p\<lparr>prog_pagesScanned :=
         (if pr_pagesScanned finalStats = 0 then prog_pagesScanned p
          else pr_pagesScanned finalStats),
       vulnerabilitiesFound := length (pr_vulnerabilities finalStats),
       prog_formsFound := 0,
       prog_endpointsTested := 0,
       progress := 100,
       prog_status := ''completed''\<rparr>"

definition error_event :: "scan_progress \<Rightarrow> scan_progress" where
  "error_event p = p\<lparr>prog_status := ''error''\<rparr>"

text \<open>
  Modelled from the spec: the Scan Coordinator, the class \<open>VulnerabilityScanner\<close> whose
  \<open>scan()\<close> the route awaits; its file is not part of the sources at hand. By section
  4.8 of the specification it crawls, and each page discovered increments a counter of
  pages found and emits progress; when the crawl is complete it enqueues all pages in
  the worker pool; each page done aggregates the counters and emits progress; when all
  tasks are settled it produces the result; a fatal crawl ends the scan with an error.
  Here a run is given by what happens in it: the error of a fatal crawl, or the number
  \<open>n\<close> of pages the crawl finds and the data \<open>ds\<close> of the worker results in the order
  they arrive. Progress is emitted through \<open>updateCrawlingProgress\<close> and
  \<open>updateScanningProgress\<close>. The aggregated state of the specification, with its total
  of pages and its four counters, is the state object of \<open>scanPages\<close>: the counters of
  a page done are those of the event that \<open>updateScanStats\<close> emits for it. The findings
  of the result are those of the worker results, in order, and its pages scanned those of
  the state object.
\<close>

datatype scan_run = CrawlFatal string | Scanned nat "worker_data option list"

definition pages_found :: "nat \<Rightarrow> nat list" where
  \<comment> \<open>the counter of pages found, after each page of a crawl that finds \<open>n\<close>\<close>
  "pages_found n = [1..<Suc n]"

definition page_events ::
  "string \<Rightarrow> nat \<Rightarrow> worker_data option list \<Rightarrow> worker_pool \<Rightarrow> pool_event list" where
  \<comment> \<open>the events of \<open>updateScanStats\<close>: those of \<open>scanPages\<close> but its own last one\<close>
  "page_events sid n ds pool = butlast (scanPages_events sid n ds pool)"

definition scanning_update_of :: "pool_event \<Rightarrow> scanning_update" where
  "scanning_update_of e =
     \<lparr>upd_pagesScanned = ev_pagesScanned e,
      upd_vulnerabilitiesFound = ev_vulnerabilitiesFound e,
      upd_formsFound = ev_formsFound e,
      upd_endpointsTested = ev_endpointsTested e\<rparr>"

definition result_findings :: "worker_data option \<Rightarrow> finding list" where
  "result_findings d =
     (case d of
        None \<Rightarrow> []
      | Some dat \<Rightarrow> (case wd_vulnerabilities dat of None \<Rightarrow> [] | Some vs \<Rightarrow> vs))"

definition coordinator :: "string \<Rightarrow> worker_pool \<Rightarrow> scan_run \<Rightarrow> scanner" where
  "coordinator sid pool run wsServer =
     (case run of
        CrawlFatal err \<Rightarrow> (Inl err, wsServer)
      | Scanned n ds \<Rightarrow>
          (let ws1 = map_option (fold (updateCrawlingProgress sid) (pages_found n)) wsServer;
               ws2 = map_option
                       (fold (\<lambda>e. updateScanningProgress sid (scanning_update_of e))
                          (page_events sid n ds pool)) ws1
           in (Inr \<lparr>res_vulnerabilities = concat (map result_findings ds),
                    res_pagesScanned = pool_pagesScanned (snd (scanPages sid n ds pool)),
                    res_crawlStats = None\<rparr>, ws2)))"

text \<open>
  The events published for a scan: those the server emits for it from the moment the
  background task of the route starts until it ends. The storage and the clock of the
  task do not touch them.
\<close>

definition scan_publications ::
  "string \<Rightarrow> string \<Rightarrow> worker_pool \<Rightarrow> scan_run \<Rightarrow> ws_server \<Rightarrow> scan_progress list" where
  "scan_publications sid u pool run ws =
     (case snd (backgroundScan (coordinator sid pool run) 0 sid u
                  (createScan sid u Map.empty) (Some ws)) of
        None \<Rightarrow> []
      | Some ws' \<Rightarrow> drop (length (events_of sid ws)) (events_of sid ws'))"

text \<open>
  The record of the server after the crawl of \<open>n\<close> pages, the record after the page
  scans reported by the events \<open>es\<close>, and the result that \<open>performVulnerabilityScan\<close>
  returns for a run that scans.
\<close>

definition after_crawl :: "nat \<Rightarrow> scan_progress" where
  "after_crawl n = (if n = 0 then start_event 0 else crawl_event (start_event 0) n)"

definition after_scanning :: "nat \<Rightarrow> pool_event list \<Rightarrow> scan_progress" where
  "after_scanning n es =
     (if es = [] then after_crawl n
      else scan_event (after_crawl n) (scanning_update_of (last es)))"

definition final_stats :: "string \<Rightarrow> nat \<Rightarrow> worker_data option list \<Rightarrow> worker_pool \<Rightarrow> perform_result" where
  "final_stats sid n ds pool =
     \<lparr>pr_vulnerabilities = concat (map result_findings ds),
      pr_pagesScanned = pool_pagesScanned (snd (scanPages sid n ds pool)),
      pr_crawlStats = []\<rparr>"

section \<open>Theorems\<close>

subsection \<open>The HTTP fetch primitive\<close>

text \<open>
  C5, as the spec states it: a response with status 5xx makes the call fail. It does not:
  the rejection of a 5xx response carries the response, and \<open>fetchPage\<close> returns it.
\<close>

theorem fetchPage_5xx_counterexample:
  "fst (fetchPage net500 ''http://t.example/'' no_options (init_state ''http://t.example/''))
     = Inr error_page \<and> status error_page = 500"
  by (simp add: fetchPage_def net500_def axios_def error_page_def)

text \<open>
  C5, amended: \<open>fetchPage\<close> returns every response that arrives, whatever its status
  (5xx included), and fails exactly when no response arrives (network, timeout, TLS or
  DNS failure), with the message \<open>fetch error: <cause>\<close>.
\<close>

theorem fetchPage_returns_every_response:
  "fst (fetchPage net u options st) =
     (case net (exchanges st) (axios_request u options) of
        Received res \<Rightarrow> Inr res
      | NoResponse m \<Rightarrow> Inl (''fetch error: '' @ m))"
  by (simp add: fetchPage_def axios_def Let_def split: axios_outcome.splits)

subsection \<open>The page scanner\<close>

text \<open>
  C10: when the fetch of the page arrives with a body that is not a string, \<open>scanPage\<close>
  returns success with no vulnerability, \<open>formsFound = 0\<close> and
  \<open>endpointsTested = 0\<close>, whatever the response's \<open>Server\<close> header is, and the
  only HTTP exchange of the run is the fetch of the page itself: no detector runs and no
  probe is sent.
\<close>

theorem scanPage_non_string_body:
  assumes "net [] (axios_request page_url no_options) = Received res"
      and "data res = NonText"
  shows "success (scanPage lib net page_url)
       \<and> error_message (scanPage lib net page_url) = None
       \<and> vulnerabilities (out_state (scanPage lib net page_url)) = []
       \<and> formsFound (out_state (scanPage lib net page_url)) = 0
       \<and> endpointsTested (out_state (scanPage lib net page_url)) = 0
       \<and> pageUrl (out_state (scanPage lib net page_url)) = page_url
       \<and> exchanges (out_state (scanPage lib net page_url))
           = [(axios_request page_url no_options, Received res)]"
  using assms
  by (simp add: scanPage_def fetchPage_def axios_def init_state_def Let_def)

theorem scanPage_non_string_body_witness:
  "server json_response = Some ''nginx/1.18.0''
   \<and> success (scanPage plainLib netJson ''http://t.example/api'')
   \<and> vulnerabilities (out_state (scanPage plainLib netJson ''http://t.example/api'')) = []
   \<and> formsFound (out_state (scanPage plainLib netJson ''http://t.example/api'')) = 0
   \<and> endpointsTested (out_state (scanPage plainLib netJson ''http://t.example/api'')) = 0
   \<and> length (exchanges (out_state (scanPage plainLib netJson ''http://t.example/api''))) = 1"
proof -
  have h1: "netJson [] (axios_request ''http://t.example/api'' no_options)
              = Received json_response"
    by (simp add: netJson_def)
  have h2: "data json_response = NonText"
    by (simp add: json_response_def)
  show ?thesis
    using scanPage_non_string_body
      [of netJson "''http://t.example/api''" json_response plainLib, OF h1 h2]
    by (simp add: json_response_def)
qed

subsection \<open>Helper lemmas: what each step of the page scanner adds\<close>

lemma fetchPage_eq:
  "fetchPage net u options st =
     (case net (exchanges st) (axios_request u options) of
        Received res \<Rightarrow> Inr res
      | NoResponse m \<Rightarrow> Inl (''fetch error: '' @ m),
      st\<lparr>exchanges := exchanges st
          @ [(axios_request u options, net (exchanges st) (axios_request u options))]\<rparr>)"
  by (simp add: fetchPage_def axios_def Let_def split: axios_outcome.splits)

lemma probe_eq:
  "probe lib net method targetUrl params st =
     (case net (exchanges st) (probeRequest lib method targetUrl params) of
        Received res \<Rightarrow> Inr res
      | NoResponse m \<Rightarrow> Inl (''fetch error: '' @ m),
      st\<lparr>exchanges := exchanges st
          @ [(probeRequest lib method targetUrl params,
              net (exchanges st) (probeRequest lib method targetUrl params))]\<rparr>)"
  by (simp add: probe_def probeRequest_def fetchPage_eq)

lemma xssTest_run:
  "\<exists>new. exchanges (xssTest lib net method targetUrl inputs nm ps st) = exchanges st @ new
     \<and> endpointsTested (xssTest lib net method targetUrl inputs nm ps st)
         = endpointsTested st + length new
     \<and> length new \<le> length ps
     \<and> map fst new
         = map (\<lambda>p. probeRequest lib method targetUrl (probeParams inputs nm ''test'' p))
             (take (length new) ps)
     \<and> (\<forall>i < length new - 1. \<not> confirmsXss (ps ! i) (new ! i))
     \<and> (if new \<noteq> [] \<and> confirmsXss (ps ! (length new - 1)) (last new)
        then vulnerabilities (xssTest lib net method targetUrl inputs nm ps st)
               = vulnerabilities st @ [xssFinding nm method targetUrl]
        else vulnerabilities (xssTest lib net method targetUrl inputs nm ps st)
               = vulnerabilities st
             \<and> length new = length ps)"
proof (induction ps arbitrary: st)
  case Nil
  then show ?case by simp
next
  case (Cons p rest)
  let ?rq = "probeRequest lib method targetUrl (probeParams inputs nm ''test'' p)"
  let ?st1 = "countEndpoint st"
  let ?out = "net (exchanges ?st1) ?rq"
  let ?st2 = "?st1\<lparr>exchanges := exchanges ?st1 @ [(?rq, ?out)]\<rparr>"
  show ?case
  proof (cases "confirmsXss p (?rq, ?out)")
    case True
    then have "xssTest lib net method targetUrl inputs nm (p # rest) st
                 = push (xssFinding nm method targetUrl) ?st2"
      by (auto simp: probe_eq confirmsXss_def split: axios_outcome.splits)
    then show ?thesis
      using True
      by (intro exI [of _ "[(?rq, ?out)]"]) (simp add: push_def countEndpoint_def)
  next
    case False
    then have eq: "xssTest lib net method targetUrl inputs nm (p # rest) st
                 = xssTest lib net method targetUrl inputs nm rest ?st2"
      by (auto simp: probe_eq confirmsXss_def split: axios_outcome.splits)
    from Cons.IH [of ?st2] obtain new where
      new: "exchanges (xssTest lib net method targetUrl inputs nm rest ?st2)
              = exchanges ?st2 @ new"
           "endpointsTested (xssTest lib net method targetUrl inputs nm rest ?st2)
              = endpointsTested ?st2 + length new"
           "length new \<le> length rest"
           "map fst new
              = map (\<lambda>p. probeRequest lib method targetUrl (probeParams inputs nm ''test'' p))
                  (take (length new) rest)"
           "\<forall>i < length new - 1. \<not> confirmsXss (rest ! i) (new ! i)"
           "if new \<noteq> [] \<and> confirmsXss (rest ! (length new - 1)) (last new)
            then vulnerabilities (xssTest lib net method targetUrl inputs nm rest ?st2)
                   = vulnerabilities ?st2 @ [xssFinding nm method targetUrl]
            else vulnerabilities (xssTest lib net method targetUrl inputs nm rest ?st2)
                   = vulnerabilities ?st2
                 \<and> length new = length rest"
      by blast
    show ?thesis
      unfolding eq
      apply (rule exI [of _ "(?rq, ?out) # new"])
      using new False
      apply (cases new)
       apply (simp add: countEndpoint_def)
      apply (simp add: countEndpoint_def nth_Cons' less_Suc_eq_0_disj split: if_splits)
      apply (auto simp: nth_Cons' split: if_splits)
      done
  qed
qed

lemma xssTest_vulnerabilities:
  "vulnerabilities (xssTest lib net method targetUrl inputs nm ps st) = vulnerabilities st
   \<or> vulnerabilities (xssTest lib net method targetUrl inputs nm ps st)
       = vulnerabilities st @ [xssFinding nm method targetUrl]"
  using xssTest_run [of lib net "method" targetUrl inputs nm ps st]
  by (auto split: if_splits)

lemma sqlTest_vulnerabilities:
  "vulnerabilities (sqlTest lib net method targetUrl inputs nm ps st) = vulnerabilities st
   \<or> vulnerabilities (sqlTest lib net method targetUrl inputs nm ps st)
       = vulnerabilities st @ [sqliFinding nm method targetUrl]"
proof (induction ps arbitrary: st)
  case Nil
  then show ?case by simp
next
  case (Cons p rest)
  let ?rq = "probeRequest lib method targetUrl (probeParams inputs nm ''1'' p)"
  let ?st1 = "countEndpoint st"
  let ?st2 = "?st1\<lparr>exchanges := exchanges ?st1 @ [(?rq, net (exchanges ?st1) ?rq)]\<rparr>"
  have "sqlTest lib net method targetUrl inputs nm (p # rest) st
          = push (sqliFinding nm method targetUrl) ?st2
      \<or> sqlTest lib net method targetUrl inputs nm (p # rest) st
          = sqlTest lib net method targetUrl inputs nm rest ?st2"
    by (auto simp: probe_eq split: axios_outcome.splits)
  then show ?case
    using Cons.IH [of ?st2] by (auto simp: push_def countEndpoint_def)
qed

lemma fuzzInput_vulnerabilities:
  "\<exists>l. vulnerabilities (fuzzInput lib net method targetUrl inputs input st)
         = vulnerabilities st @ l
       \<and> inputOrder method targetUrl input l"
proof (cases "name_attr input")
  case None
  then show ?thesis by (simp add: fuzzInput_def inputOrder_def)
next
  case (Some nm)
  show ?thesis
  proof (cases "nm = []")
    case True
    with Some show ?thesis by (simp add: fuzzInput_def inputOrder_def)
  next
    case False
    let ?x = "xssTest lib net method targetUrl inputs nm XSS_PAYLOADS st"
    from xssTest_vulnerabilities [of lib net "method" targetUrl inputs nm XSS_PAYLOADS st]
         sqlTest_vulnerabilities [of lib net "method" targetUrl inputs nm SQL_PAYLOADS ?x]
    show ?thesis
      using Some False by (auto simp: fuzzInput_def inputOrder_def)
  qed
qed

lemma fold_vulnerabilities:
  assumes "\<And>x st. \<exists>l. vulnerabilities (f x st) = vulnerabilities st @ l \<and> P x l"
  shows "\<exists>ls. vulnerabilities (fold f xs st) = vulnerabilities st @ concat ls
            \<and> list_all2 P xs ls"
proof (induction xs arbitrary: st)
  case Nil
  then show ?case by simp
next
  case (Cons x xs)
  from assms [of x st] obtain l where
    l: "vulnerabilities (f x st) = vulnerabilities st @ l" "P x l" by blast
  from Cons.IH [of "f x st"] obtain ls where
    ls: "vulnerabilities (fold f xs (f x st)) = vulnerabilities (f x st) @ concat ls"
        "list_all2 P xs ls" by blast
  show ?case
    using l ls by (intro exI [of _ "l # ls"]) simp
qed

lemma csrfCheck_vulnerabilities:
  "vulnerabilities (csrfCheck lib targetUrl f st) = vulnerabilities st @ csrfPart lib targetUrl f"
  by (simp add: csrfCheck_def csrfPart_def push_def)

lemma csrfPart_spec:
  "csrfPart lib targetUrl f = (if csrf_spec lib f then [csrfFinding targetUrl] else [])"
proof -
  have "(length (sensitiveInputs lib f) > 0) = (\<exists>e \<in> set (elements f).
           tag e = ''input''
           \<and> (hasType lib ''password'' e \<or> nameContains ''password'' e
                \<or> nameContains ''email'' e))"
    by (auto simp: sensitiveInputs_def filter_empty_conv)
  moreover have "(length (csrfTokens lib f) = 0) = (\<not> (\<exists>e \<in> set (elements f).
           tag e = ''input'' \<and> hasType lib ''hidden'' e
           \<and> (nameContains ''csrf'' e \<or> nameContains ''token'' e)))"
    by (auto simp: csrfTokens_def filter_empty_conv)
  ultimately show ?thesis
    by (simp add: csrfPart_def csrf_spec_def)
qed

lemma scanForm_vulnerabilities:
  "\<exists>l. vulnerabilities (scanForm lib net page_url f st) = vulnerabilities st @ l
       \<and> formOrder lib page_url f l"
proof -
  let ?t = "formTarget lib page_url f"
  let ?st1 = "csrfCheck lib ?t f st"
  from fold_vulnerabilities
         [of "fuzzInput lib net (formMethod f) ?t (fuzzInputs lib f)"
             "inputOrder (formMethod f) ?t" "fuzzInputs lib f" ?st1,
          OF fuzzInput_vulnerabilities]
  obtain ls where
    "vulnerabilities (fold (fuzzInput lib net (formMethod f) ?t (fuzzInputs lib f))
                        (fuzzInputs lib f) ?st1)
       = vulnerabilities ?st1 @ concat ls"
    "list_all2 (inputOrder (formMethod f) ?t) (fuzzInputs lib f) ls"
    by blast
  then show ?thesis
    by (auto simp: scanForm_def Let_def formOrder_def csrfCheck_vulnerabilities)
qed

lemma testParam_vulnerabilities:
  "\<exists>l. vulnerabilities (testParam lib net page_url param st) = vulnerabilities st @ l
       \<and> paramOrder lib page_url param l"
  by (auto simp: testParam_def Let_def fetchPage_eq paramOrder_def push_def countEndpoint_def
           split: axios_outcome.splits)

lemma domCheck_vulnerabilities:
  "vulnerabilities (domCheck page_url doc st)
     = vulnerabilities st @ map (\<lambda>s. domXssFinding page_url) (filter domSink (scripts doc))"
proof -
  have "vulnerabilities
          (fold (\<lambda>s acc. if domSink s then push (domXssFinding page_url) acc else acc) xs st)
        = vulnerabilities st @ map (\<lambda>s. domXssFinding page_url) (filter domSink xs)" for xs
    by (induction xs arbitrary: st) (simp_all add: push_def)
  then show ?thesis by (simp add: domCheck_def)
qed

lemma scanPage_vulnerabilities:
  assumes "net [] (axios_request page_url no_options) = Received res"
      and "data res = Text html"
  shows "\<exists>fs us. vulnerabilities (out_state (scanPage lib net page_url))
                  = concat fs @ concat us @ passiveFindings page_url (load lib html) res html
               \<and> list_all2 (formOrder lib page_url) (forms (load lib html)) fs
               \<and> list_all2 (paramOrder lib page_url)
                    (case searchParams lib page_url of None \<Rightarrow> [] | Some ps \<Rightarrow> ps) us"
proof -
  let ?doc = "load lib html"
  let ?st0 = "(init_state page_url)
                \<lparr>exchanges := [(axios_request page_url no_options, Received res)]\<rparr>"
  let ?st1 = "?st0\<lparr>formsFound := length (forms ?doc)\<rparr>"
  let ?st2 = "fold (scanForm lib net page_url) (forms ?doc) ?st1"
  let ?st3 = "scanUrlParams lib net page_url ?st2"
  have out: "out_state (scanPage lib net page_url)
               = dbErrorCheck page_url html (serverCheck res (domCheck page_url ?doc ?st3))"
    using assms by (simp add: scanPage_def fetchPage_eq init_state_def Let_def)
  from fold_vulnerabilities
         [of "scanForm lib net page_url" "formOrder lib page_url" "forms ?doc" ?st1,
          OF scanForm_vulnerabilities]
  obtain fs where
    fs: "vulnerabilities ?st2 = vulnerabilities ?st1 @ concat fs"
        "list_all2 (formOrder lib page_url) (forms ?doc) fs"
    by blast
  have "\<exists>us. vulnerabilities ?st3 = vulnerabilities ?st2 @ concat us
            \<and> list_all2 (paramOrder lib page_url)
                 (case searchParams lib page_url of None \<Rightarrow> [] | Some ps \<Rightarrow> ps) us"
  proof (cases "searchParams lib page_url")
    case None
    then show ?thesis by (simp add: scanUrlParams_def)
  next
    case (Some ps)
    from fold_vulnerabilities
           [of "testParam lib net page_url" "paramOrder lib page_url" ps ?st2,
            OF testParam_vulnerabilities]
    show ?thesis using Some by (simp add: scanUrlParams_def)
  qed
  then obtain us where
    us: "vulnerabilities ?st3 = vulnerabilities ?st2 @ concat us"
        "list_all2 (paramOrder lib page_url)
           (case searchParams lib page_url of None \<Rightarrow> [] | Some ps \<Rightarrow> ps) us"
    by blast
  have "vulnerabilities (out_state (scanPage lib net page_url))
          = vulnerabilities ?st3 @ passiveFindings page_url ?doc res html"
    unfolding out
    by (simp add: dbErrorCheck_def serverCheck_def domCheck_vulnerabilities passiveFindings_def
                  push_def split: option.splits)
  moreover have "vulnerabilities ?st1 = []"
    by (simp add: init_state_def)
  ultimately have "vulnerabilities (out_state (scanPage lib net page_url))
          = concat fs @ concat us @ passiveFindings page_url ?doc res html"
    using fs(1) us(1) by simp
  with fs(2) us(2) show ?thesis by blast
qed

lemma filter_concat_all2:
  assumes "list_all2 P xs ls" and "\<And>x l. P x l \<Longrightarrow> filter Q l = g x"
  shows "filter Q (concat ls) = concat (map g xs)"
  using assms(1) by (induction rule: list_all2_induct) (simp_all add: assms(2))

lemma concat_map_if: "concat (map (\<lambda>x. if c x then [h x] else []) xs) = map h (filter c xs)"
  by (induction xs) simp_all

lemma inputOrder_no_csrf:
  "inputOrder method targetUrl input l \<Longrightarrow> filter (\<lambda>v. category v = ''CSRF'') l = []"
  by (auto simp: inputOrder_def xssFinding_def sqliFinding_def split: option.splits if_splits)

lemma formOrder_csrf:
  assumes "formOrder lib page_url f l"
  shows "filter (\<lambda>v. category v = ''CSRF'') l
           = (if csrf_spec lib f then [csrfFinding (formTarget lib page_url f)] else [])"
proof -
  from assms obtain ls where
    l: "l = csrfPart lib (formTarget lib page_url f) f @ concat ls"
    and ls: "list_all2 (inputOrder (formMethod f) (formTarget lib page_url f))
               (fuzzInputs lib f) ls"
    by (auto simp: formOrder_def)
  have "filter (\<lambda>v. category v = ''CSRF'') (concat ls)
          = concat (map (\<lambda>x. []) (fuzzInputs lib f))"
    using ls by (rule filter_concat_all2) (rule inputOrder_no_csrf)
  then have "filter (\<lambda>v. category v = ''CSRF'') (concat ls) = []" by simp
  then show ?thesis by (simp add: l csrfPart_spec csrfFinding_def)
qed

lemma paramOrder_no_csrf:
  "paramOrder lib page_url param l \<Longrightarrow> filter (\<lambda>v. category v = ''CSRF'') l = []"
  by (auto simp: paramOrder_def urlXssFinding_def urlSqliFinding_def)

lemma passiveFindings_no_csrf:
  "filter (\<lambda>v. category v = ''CSRF'') (passiveFindings page_url doc res html) = []"
  by (auto simp: passiveFindings_def domXssFinding_def serverFinding_def dbErrorFinding_def
           filter_empty_conv split: option.splits)

subsection \<open>Helper lemmas: the probes each step of the page scanner sends\<close>

lemma payloads_not_empty: "XSS_PAYLOADS \<noteq> []" "SQL_PAYLOADS \<noteq> []"
  by (simp_all add: XSS_PAYLOADS_def SQL_PAYLOADS_def)

lemma xssTest_exchanges:
  assumes "ps \<noteq> []"
  shows "\<exists>new. exchanges (xssTest lib net method targetUrl inputs nm ps st) = exchanges st @ new
           \<and> new \<noteq> []
           \<and> map fst new
               = map (\<lambda>p. probeRequest lib method targetUrl (probeParams inputs nm ''test'' p))
                   (take (length new) ps)"
proof -
  from xssTest_run [of lib net "method" targetUrl inputs nm ps st] obtain new where
    new: "exchanges (xssTest lib net method targetUrl inputs nm ps st) = exchanges st @ new"
         "map fst new
            = map (\<lambda>p. probeRequest lib method targetUrl (probeParams inputs nm ''test'' p))
                (take (length new) ps)"
    and fin: "if new \<noteq> [] \<and> confirmsXss (ps ! (length new - 1)) (last new)
              then vulnerabilities (xssTest lib net method targetUrl inputs nm ps st)
                     = vulnerabilities st @ [xssFinding nm method targetUrl]
              else vulnerabilities (xssTest lib net method targetUrl inputs nm ps st)
                     = vulnerabilities st
                   \<and> length new = length ps"
    by blast
  have "new \<noteq> []"
  proof
    assume "new = []"
    with fin have "length new = length ps" by simp
    with \<open>new = []\<close> assms show False by simp
  qed
  with new show ?thesis by blast
qed

lemma sqlTest_exchanges:
  "\<exists>new. exchanges (sqlTest lib net method targetUrl inputs nm ps st) = exchanges st @ new
     \<and> (ps \<noteq> [] \<longrightarrow> new \<noteq> [])
     \<and> map fst new
         = map (\<lambda>p. probeRequest lib method targetUrl (probeParams inputs nm ''1'' p))
             (take (length new) ps)"
proof (induction ps arbitrary: st)
  case Nil
  then show ?case by simp
next
  case (Cons p rest)
  let ?rq = "probeRequest lib method targetUrl (probeParams inputs nm ''1'' p)"
  let ?st1 = "countEndpoint st"
  let ?ex = "(?rq, net (exchanges ?st1) ?rq)"
  let ?st2 = "?st1\<lparr>exchanges := exchanges ?st1 @ [?ex]\<rparr>"
  have "sqlTest lib net method targetUrl inputs nm (p # rest) st
          = push (sqliFinding nm method targetUrl) ?st2
      \<or> sqlTest lib net method targetUrl inputs nm (p # rest) st
          = sqlTest lib net method targetUrl inputs nm rest ?st2"
    by (auto simp: probe_eq split: axios_outcome.splits)
  then show ?case
  proof
    assume "sqlTest lib net method targetUrl inputs nm (p # rest) st
              = push (sqliFinding nm method targetUrl) ?st2"
    then show ?thesis
      by (intro exI [of _ "[?ex]"]) (simp add: push_def countEndpoint_def)
  next
    assume eq: "sqlTest lib net method targetUrl inputs nm (p # rest) st
                  = sqlTest lib net method targetUrl inputs nm rest ?st2"
    from Cons.IH [of ?st2] obtain new where
      new: "exchanges (sqlTest lib net method targetUrl inputs nm rest ?st2)
              = exchanges ?st2 @ new"
           "map fst new
              = map (\<lambda>p. probeRequest lib method targetUrl (probeParams inputs nm ''1'' p))
                  (take (length new) rest)"
      by blast
    show ?thesis
      unfolding eq using new
      by (intro exI [of _ "?ex # new"]) (simp add: countEndpoint_def)
  qed
qed

lemma fuzzInput_exchanges:
  "\<exists>es. exchanges (fuzzInput lib net method targetUrl inputs input st) = exchanges st @ es
        \<and> inputProbes lib method targetUrl inputs input es"
proof (cases "name_attr input")
  case None
  then show ?thesis by (simp add: fuzzInput_def inputProbes_def)
next
  case (Some nm)
  show ?thesis
  proof (cases "nm = []")
    case True
    with Some show ?thesis by (simp add: fuzzInput_def inputProbes_def)
  next
    case False
    let ?x = "xssTest lib net method targetUrl inputs nm XSS_PAYLOADS st"
    from xssTest_exchanges [OF payloads_not_empty(1), of lib net "method" targetUrl inputs nm st]
    obtain xs where
      xs: "exchanges ?x = exchanges st @ xs" "xs \<noteq> []"
          "map fst xs
             = map (\<lambda>p. probeRequest lib method targetUrl (probeParams inputs nm ''test'' p))
                 (take (length xs) XSS_PAYLOADS)"
      by blast
    from sqlTest_exchanges [of lib net "method" targetUrl inputs nm SQL_PAYLOADS ?x]
    obtain ss where
      ss: "exchanges (sqlTest lib net method targetUrl inputs nm SQL_PAYLOADS ?x)
             = exchanges ?x @ ss" "ss \<noteq> []"
          "map fst ss
             = map (\<lambda>p. probeRequest lib method targetUrl (probeParams inputs nm ''1'' p))
                 (take (length ss) SQL_PAYLOADS)"
      using payloads_not_empty(2) by blast
    have "exchanges (fuzzInput lib net method targetUrl inputs input st)
            = exchanges st @ (xs @ ss)"
      using Some False xs(1) ss(1) by (simp add: fuzzInput_def)
    moreover have "inputProbes lib method targetUrl inputs input (xs @ ss)"
      using Some False xs(2,3) ss(2,3) by (auto simp: inputProbes_def)
    ultimately show ?thesis by blast
  qed
qed

lemma fold_exchanges:
  assumes "\<And>x st. \<exists>l. exchanges (f x st) = exchanges st @ l \<and> P x l"
  shows "\<exists>ls. exchanges (fold f xs st) = exchanges st @ concat ls \<and> list_all2 P xs ls"
proof (induction xs arbitrary: st)
  case Nil
  then show ?case by simp
next
  case (Cons x xs)
  from assms [of x st] obtain l where
    l: "exchanges (f x st) = exchanges st @ l" "P x l" by blast
  from Cons.IH [of "f x st"] obtain ls where
    ls: "exchanges (fold f xs (f x st)) = exchanges (f x st) @ concat ls"
        "list_all2 P xs ls" by blast
  show ?case
    using l ls by (intro exI [of _ "l # ls"]) simp
qed

lemma scanForm_exchanges:
  "\<exists>es. exchanges (scanForm lib net page_url f st) = exchanges st @ es
        \<and> formProbes lib page_url f es"
proof -
  let ?t = "formTarget lib page_url f"
  let ?st1 = "csrfCheck lib ?t f st"
  have c: "exchanges ?st1 = exchanges st"
    by (simp add: csrfCheck_def push_def)
  from fold_exchanges
         [of "fuzzInput lib net (formMethod f) ?t (fuzzInputs lib f)"
             "inputProbes lib (formMethod f) ?t (fuzzInputs lib f)" "fuzzInputs lib f" ?st1,
          OF fuzzInput_exchanges]
  obtain ess where
    "exchanges (fold (fuzzInput lib net (formMethod f) ?t (fuzzInputs lib f))
                  (fuzzInputs lib f) ?st1)
       = exchanges ?st1 @ concat ess"
    "list_all2 (inputProbes lib (formMethod f) ?t (fuzzInputs lib f)) (fuzzInputs lib f) ess"
    by blast
  then show ?thesis
    by (auto simp: scanForm_def Let_def formProbes_def c)
qed

lemma testParam_exchanges:
  "\<exists>es. exchanges (testParam lib net page_url param st) = exchanges st @ es
        \<and> paramProbes lib page_url param es"
  by (auto simp: testParam_def Let_def fetchPage_eq paramProbes_def push_def countEndpoint_def
           split: axios_outcome.splits)

lemma domCheck_exchanges: "exchanges (domCheck page_url doc st) = exchanges st"
proof -
  have "exchanges
          (fold (\<lambda>s acc. if domSink s then push (domXssFinding page_url) acc else acc) xs st)
        = exchanges st" for xs
    by (induction xs arbitrary: st) (simp_all add: push_def)
  then show ?thesis by (simp add: domCheck_def)
qed

lemma scanPage_exchanges:
  assumes "net [] (axios_request page_url no_options) = Received res"
      and "data res = Text html"
  shows "\<exists>fe ue. exchanges (out_state (scanPage lib net page_url))
                  = (axios_request page_url no_options, Received res) # concat fe @ concat ue
               \<and> list_all2 (formProbes lib page_url) (forms (load lib html)) fe
               \<and> list_all2 (paramProbes lib page_url)
                    (case searchParams lib page_url of None \<Rightarrow> [] | Some ps \<Rightarrow> ps) ue"
proof -
  let ?doc = "load lib html"
  let ?st0 = "(init_state page_url)
                \<lparr>exchanges := [(axios_request page_url no_options, Received res)]\<rparr>"
  let ?st1 = "?st0\<lparr>formsFound := length (forms ?doc)\<rparr>"
  let ?st2 = "fold (scanForm lib net page_url) (forms ?doc) ?st1"
  let ?st3 = "scanUrlParams lib net page_url ?st2"
  have out: "out_state (scanPage lib net page_url)
               = dbErrorCheck page_url html (serverCheck res (domCheck page_url ?doc ?st3))"
    using assms by (simp add: scanPage_def fetchPage_eq init_state_def Let_def)
  from fold_exchanges
         [of "scanForm lib net page_url" "formProbes lib page_url" "forms ?doc" ?st1,
          OF scanForm_exchanges]
  obtain fe where
    fe: "exchanges ?st2 = exchanges ?st1 @ concat fe"
        "list_all2 (formProbes lib page_url) (forms ?doc) fe"
    by blast
  have "\<exists>ue. exchanges ?st3 = exchanges ?st2 @ concat ue
            \<and> list_all2 (paramProbes lib page_url)
                 (case searchParams lib page_url of None \<Rightarrow> [] | Some ps \<Rightarrow> ps) ue"
  proof (cases "searchParams lib page_url")
    case None
    then show ?thesis by (simp add: scanUrlParams_def)
  next
    case (Some ps)
    from fold_exchanges
           [of "testParam lib net page_url" "paramProbes lib page_url" ps ?st2,
            OF testParam_exchanges]
    show ?thesis using Some by (simp add: scanUrlParams_def)
  qed
  then obtain ue where
    ue: "exchanges ?st3 = exchanges ?st2 @ concat ue"
        "list_all2 (paramProbes lib page_url)
           (case searchParams lib page_url of None \<Rightarrow> [] | Some ps \<Rightarrow> ps) ue"
    by blast
  have "exchanges (out_state (scanPage lib net page_url)) = exchanges ?st3"
    unfolding out
    by (simp add: dbErrorCheck_def serverCheck_def domCheck_exchanges push_def
          split: option.splits)
  moreover have "exchanges ?st1 = [(axios_request page_url no_options, Received res)]"
    by simp
  ultimately have "exchanges (out_state (scanPage lib net page_url))
          = (axios_request page_url no_options, Received res) # concat fe @ concat ue"
    using fe(1) ue(1) by simp
  with fe(2) ue(2) show ?thesis by blast
qed

subsection \<open>Helper lemmas: the example sites\<close>

lemma lower_password: "toLowerCase ''password'' = ''password''"
  by code_simp

lemma upper_post: "toUpperCase ''post'' = ''POST''"
  by code_simp

lemma login_probe_reflected:
  \<open>containsPayload
     (Text ''<html><body>http://t.example/savepw=<script>alert("XSS")</script>&</body></html>'')
     ''<script>alert("XSS")</script>''\<close>
  by code_simp

lemma login_xssTest:
  "vulnerabilities
     (xssTest loginLib echoNet ''POST'' ''http://t.example/save'' [pwInput] ''pw'' XSS_PAYLOADS
        (init_state loginUrl))
   = [xssFinding ''pw'' ''POST'' ''http://t.example/save'']"
  using login_probe_reflected
  by (simp add: XSS_PAYLOADS_def probe_eq probeRequest_def probeParams_def List.map_filter_def
        pwInput_def loginLib_def plainLib_def echoNet_def axios_request_def or_default_def
        init_state_def countEndpoint_def push_def
      del: containsPayload.simps)

lemma search_page:
  \<open>searchPage (axios_request searchUrl no_options)
     = \<lparr>status = 200, server = Some ''nginx/1.18.0'',
        data = Text searchHtml\<rparr>\<close>
  by code_simp

lemma search_page_form:
  \<open>load searchLib searchHtml
     = \<lparr>forms = [searchForm], scripts = []\<rparr>\<close>
  by code_simp

lemma search_page_no_sql_error:
  \<open>\<not> containsSQLError (Text searchHtml)\<close>
  by code_simp

lemma search_form:
  "formMethod searchForm = ''GET''"
  "formTarget searchLib searchUrl searchForm = ''http://t.example/search''"
  "fuzzInputs searchLib searchForm = [qInput]"
  by code_simp+

lemma search_requests:
  \<open>probeRequest searchLib ''GET'' ''http://t.example/search''
     [(''q'', ''<script>alert("XSS")</script>'')]
   = axios_request
       ''http://t.example/search?q=%3Cscript%3Ealert%28%22XSS%22%29%3C%2Fscript%3E'' no_options\<close>
  \<open>probeRequest searchLib ''GET'' ''http://t.example/search'' [(''q'', ''\' OR \'1\'=\'1'')]
   = axios_request ''http://t.example/search?q=%27+OR+%271%27%3D%271'' no_options\<close>
  \<open>setParam searchLib searchUrl ''q'' urlXssPayload
   = ''http://t.example/search?q=%3Cscript%3Ealert%28%22XSS%22%29%3C%2Fscript%3E''\<close>
  \<open>setParam searchLib searchUrl ''q'' urlSqliPayload = ''http://t.example/search?q=%27''\<close>
  by code_simp+

lemma search_probe_pages:
  \<open>searchPage (axios_request
      ''http://t.example/search?q=%3Cscript%3Ealert%28%22XSS%22%29%3C%2Fscript%3E'' no_options)
   = \<lparr>status = 200, server = Some ''nginx/1.18.0'',
      data = Text ''<html><body><form action="/search" method="get"><input type="text" name="q"></form><p>http://t.example/search?q=<script>alert("XSS")</script></p></body></html>''\<rparr>\<close>
  \<open>searchPage (axios_request ''http://t.example/search?q=%27+OR+%271%27%3D%271'' no_options)
   = \<lparr>status = 200, server = Some ''nginx/1.18.0'',
      data = Text ''<html><body><form action="/search" method="get"><input type="text" name="q"></form><p>http://t.example/search?q=\' OR \'1\'=\'1</p><p>You have an error in your SQL syntax</p></body></html>''\<rparr>\<close>
  \<open>searchPage (axios_request ''http://t.example/search?q=%27'' no_options)
   = \<lparr>status = 200, server = Some ''nginx/1.18.0'',
      data = Text ''<html><body><form action="/search" method="get"><input type="text" name="q"></form><p>http://t.example/search?q=\'</p><p>You have an error in your SQL syntax</p></body></html>''\<rparr>\<close>
  by code_simp+

lemma search_reflected:
  \<open>containsPayload
     (Text ''<html><body><form action="/search" method="get"><input type="text" name="q"></form><p>http://t.example/search?q=<script>alert("XSS")</script></p></body></html>'')
     ''<script>alert("XSS")</script>''\<close>
  \<open>containsPayload
     (Text ''<html><body><form action="/search" method="get"><input type="text" name="q"></form><p>http://t.example/search?q=<script>alert("XSS")</script></p></body></html>'')
     urlXssPayload\<close>
  by code_simp+

lemma search_sql_errors:
  \<open>containsSQLError
     (Text ''<html><body><form action="/search" method="get"><input type="text" name="q"></form><p>http://t.example/search?q=\' OR \'1\'=\'1</p><p>You have an error in your SQL syntax</p></body></html>'')\<close>
  \<open>containsSQLError
     (Text ''<html><body><form action="/search" method="get"><input type="text" name="q"></form><p>http://t.example/search?q=\'</p><p>You have an error in your SQL syntax</p></body></html>'')\<close>
  by code_simp+

lemma search_scan:
  "vulnerabilities (out_state (scanPage searchLib searchNet searchUrl))
     = [xssFinding ''q'' ''GET'' ''http://t.example/search'',
        sqliFinding ''q'' ''GET'' ''http://t.example/search'',
        urlXssFinding ''q''
          ''http://t.example/search?q=%3Cscript%3Ealert%28%22XSS%22%29%3C%2Fscript%3E'',
        urlSqliFinding ''q'' ''http://t.example/search?q=%27'',
        serverFinding ''nginx/1.18.0'']"
  "map (req_url \<circ> fst) (exchanges (out_state (scanPage searchLib searchNet searchUrl)))
     = [''http://t.example/search?q=foo'',
        ''http://t.example/search?q=%3Cscript%3Ealert%28%22XSS%22%29%3C%2Fscript%3E'',
        ''http://t.example/search?q=%27+OR+%271%27%3D%271'',
        ''http://t.example/search?q=%3Cscript%3Ealert%28%22XSS%22%29%3C%2Fscript%3E'',
        ''http://t.example/search?q=%27'']"
proof -
  have lib: "searchParams searchLib u = Some [''q'']" for u
    by (simp add: searchLib_def)
  have url: "req_url (axios_request u no_options) = u" for u
    by (simp add: axios_request_def)
  have st: "out_state (scanPage searchLib searchNet searchUrl)
     = \<lparr>vulnerabilities =
          [xssFinding ''q'' ''GET'' ''http://t.example/search'',
           sqliFinding ''q'' ''GET'' ''http://t.example/search'',
           urlXssFinding ''q''
             ''http://t.example/search?q=%3Cscript%3Ealert%28%22XSS%22%29%3C%2Fscript%3E'',
           urlSqliFinding ''q'' ''http://t.example/search?q=%27'',
           serverFinding ''nginx/1.18.0''],
        formsFound = 1, endpointsTested = 4, pageUrl = searchUrl,
        exchanges =
          map (\<lambda>u. (axios_request u no_options,
                     Received (searchPage (axios_request u no_options))))
            [searchUrl,
             ''http://t.example/search?q=%3Cscript%3Ealert%28%22XSS%22%29%3C%2Fscript%3E'',
             ''http://t.example/search?q=%27+OR+%271%27%3D%271'',
             ''http://t.example/search?q=%3Cscript%3Ealert%28%22XSS%22%29%3C%2Fscript%3E'',
             ''http://t.example/search?q=%27'']\<rparr>"
    using search_reflected search_sql_errors search_page_no_sql_error
    by (simp add: scanPage_def fetchPage_eq searchNet_def search_page search_probe_pages
          search_page_form lib
          init_state_def scanForm_def search_form csrfCheck_def fuzzInput_def qInput_def
          XSS_PAYLOADS_def SQL_PAYLOADS_def probe_eq probeParams_def List.map_filter_def
          search_requests scanUrlParams_def testParam_def countEndpoint_def push_def
          domCheck_def serverCheck_def dbErrorCheck_def Let_def
        del: containsPayload.simps containsSQLError.simps)
  show "vulnerabilities (out_state (scanPage searchLib searchNet searchUrl))
     = [xssFinding ''q'' ''GET'' ''http://t.example/search'',
        sqliFinding ''q'' ''GET'' ''http://t.example/search'',
        urlXssFinding ''q''
          ''http://t.example/search?q=%3Cscript%3Ealert%28%22XSS%22%29%3C%2Fscript%3E'',
        urlSqliFinding ''q'' ''http://t.example/search?q=%27'',
        serverFinding ''nginx/1.18.0'']"
    by (simp add: st)
  show "map (req_url \<circ> fst) (exchanges (out_state (scanPage searchLib searchNet searchUrl)))
     = [''http://t.example/search?q=foo'',
        ''http://t.example/search?q=%3Cscript%3Ealert%28%22XSS%22%29%3C%2Fscript%3E'',
        ''http://t.example/search?q=%27+OR+%271%27%3D%271'',
        ''http://t.example/search?q=%3Cscript%3Ealert%28%22XSS%22%29%3C%2Fscript%3E'',
        ''http://t.example/search?q=%27'']"
    unfolding st by (simp add: url searchUrl_def)
qed

subsection \<open>The form-input XSS detector\<close>

text \<open>
  C6: the XSS loop for one form input sends its probes in corpus order, one per counted
  endpoint, and adds at most one finding. When it adds the finding, the last exchange of
  the loop is the probe of a payload whose response body contains that payload, compared
  in lower case, and no earlier probe of the loop was confirmed: the loop stopped at the
  first confirming payload. The finding is named \<open>Reflected XSS\<close>, with severity High,
  category XSS and location \<open><METHOD> <action>\<close>; one form input adds at most one
  finding of that name.
\<close>

theorem xssTest_reflected_finding:
  "(\<exists>new. exchanges (xssTest lib net method targetUrl inputs nm ps st) = exchanges st @ new
      \<and> map fst new
          = map (\<lambda>p. probeRequest lib method targetUrl (probeParams inputs nm ''test'' p))
              (take (length new) ps)
      \<and> endpointsTested (xssTest lib net method targetUrl inputs nm ps st) = endpointsTested st + length new
      \<and> (\<forall>i < length new - 1. \<not> confirmsXss (ps ! i) (new ! i))
      \<and> (vulnerabilities (xssTest lib net method targetUrl inputs nm ps st) = vulnerabilities st \<and> length new = length ps
            \<and> (\<forall>i < length ps. \<not> confirmsXss (ps ! i) (new ! i))
         \<or> vulnerabilities (xssTest lib net method targetUrl inputs nm ps st) = vulnerabilities st @ [xssFinding nm method targetUrl]
            \<and> (\<exists>res html. new \<noteq> []
                  \<and> last new
                      = (probeRequest lib method targetUrl
                           (probeParams inputs nm ''test'' (ps ! (length new - 1))),
                         Received res)
                  \<and> data res = Text html
                  \<and> includesStr (toLowerCase html)
                        (toLowerCase (ps ! (length new - 1))))))
   \<and> name (xssFinding nm method targetUrl) = ''Reflected XSS''
   \<and> severity (xssFinding nm method targetUrl) = ''High''
   \<and> category (xssFinding nm method targetUrl) = ''XSS''
   \<and> location (xssFinding nm method targetUrl) = method @ '' '' @ targetUrl
   \<and> length (filter (\<lambda>v. name v = ''Reflected XSS'')
               (vulnerabilities (fuzzInput lib net method targetUrl inputs input st)))
       \<le> Suc (length (filter (\<lambda>v. name v = ''Reflected XSS'') (vulnerabilities st)))"
proof -
  define R where "R = xssTest lib net method targetUrl inputs nm ps st"
  define rq where
    "rq = (\<lambda>p. probeRequest lib method targetUrl (probeParams inputs nm ''test'' p))"
  define reflected where "reflected = (\<lambda>v :: finding. name v = ''Reflected XSS'')"
  from xssTest_run [of lib net "method" targetUrl inputs nm ps st] obtain new where
    new: "exchanges R = exchanges st @ new"
         "endpointsTested R = endpointsTested st + length new"
         "length new \<le> length ps"
         "map fst new = map rq (take (length new) ps)"
         "\<forall>i < length new - 1. \<not> confirmsXss (ps ! i) (new ! i)"
    and fin: "if new \<noteq> [] \<and> confirmsXss (ps ! (length new - 1)) (last new)
              then vulnerabilities R = vulnerabilities st @ [xssFinding nm method targetUrl]
              else vulnerabilities R = vulnerabilities st \<and> length new = length ps"
    unfolding R_def rq_def by blast
  have branch: "vulnerabilities R = vulnerabilities st \<and> length new = length ps
                  \<and> (\<forall>i < length ps. \<not> confirmsXss (ps ! i) (new ! i))
               \<or> vulnerabilities R = vulnerabilities st @ [xssFinding nm method targetUrl]
                  \<and> (\<exists>res html. new \<noteq> []
                        \<and> last new = (rq (ps ! (length new - 1)), Received res)
                        \<and> data res = Text html
                        \<and> includesStr (toLowerCase html)
                              (toLowerCase (ps ! (length new - 1))))"
  proof (cases "new \<noteq> [] \<and> confirmsXss (ps ! (length new - 1)) (last new)")
    case True
    then have ne: "new \<noteq> []" and c: "confirmsXss (ps ! (length new - 1)) (last new)"
      by simp_all
    from c obtain res where res: "snd (last new) = Received res"
        and cp: "containsPayload (data res) (ps ! (length new - 1))"
      by (auto simp: confirmsXss_def split: axios_outcome.splits)
    from cp obtain html where html: "data res = Text html"
        "includesStr (toLowerCase html) (toLowerCase (ps ! (length new - 1)))"
      by (cases "data res") (auto split: if_splits)
    have "fst (last new) = last (map fst new)"
      using ne by (simp add: last_map)
    also have "\<dots> = rq (last (take (length new) ps))"
    proof -
      have "take (length new) ps \<noteq> []"
        using ne new(3) by (cases ps) auto
      then show ?thesis
        using new(4) by (simp add: last_map)
    qed
    also have "last (take (length new) ps) = ps ! (length new - 1)"
    proof -
      have "take (length new) ps \<noteq> []"
        using ne new(3) by (cases ps) auto
      then have "last (take (length new) ps)
                   = take (length new) ps ! (length (take (length new) ps) - 1)"
        by (rule last_conv_nth)
      also have "\<dots> = ps ! (length new - 1)"
        using ne new(3) by (simp add: min_absorb2)
      finally show ?thesis .
    qed
    finally have "last new = (rq (ps ! (length new - 1)), Received res)"
      using res by (simp add: prod_eq_iff)
    with True fin html ne show ?thesis by auto
  next
    case False
    with fin have v: "vulnerabilities R = vulnerabilities st" "length new = length ps"
      by simp_all
    have "\<not> confirmsXss (ps ! i) (new ! i)" if "i < length ps" for i
    proof (cases "i < length new - 1")
      case True
      with new(5) show ?thesis by simp
    next
      case False
      with that v(2) have i: "i = length new - 1" and ne: "new \<noteq> []" by auto
      from ne have "last new = new ! i" by (simp add: i last_conv_nth)
      with \<open>\<not> (new \<noteq> [] \<and> confirmsXss (ps ! (length new - 1)) (last new))\<close> ne i
      show ?thesis by simp
    qed
    with v show ?thesis by simp
  qed
  from fuzzInput_vulnerabilities [of lib net "method" targetUrl inputs input st]
  obtain l where
    l: "vulnerabilities (fuzzInput lib net method targetUrl inputs input st)
          = vulnerabilities st @ l"
       "inputOrder method targetUrl input l"
    by blast
  from l(2) have "length (filter reflected l) \<le> 1"
    by (auto simp: inputOrder_def reflected_def xssFinding_def sqliFinding_def
             split: option.splits if_splits)
  with l(1) have one: "length (filter reflected
                   (vulnerabilities (fuzzInput lib net method targetUrl inputs input st)))
           \<le> Suc (length (filter reflected (vulnerabilities st)))"
    by simp
  show ?thesis
    using new(1,2,4,5) branch one
    unfolding R_def rq_def reflected_def
    by (auto simp: xssFinding_def)
qed

theorem xssTest_reflected_finding_witness:
  "\<exists>new res html.
      exchanges (xssTest loginLib echoNet ''POST'' ''http://t.example/save'' [pwInput] ''pw''
                   XSS_PAYLOADS (init_state loginUrl)) = new
      \<and> vulnerabilities
           (xssTest loginLib echoNet ''POST'' ''http://t.example/save'' [pwInput] ''pw''
              XSS_PAYLOADS (init_state loginUrl))
          = [xssFinding ''pw'' ''POST'' ''http://t.example/save'']
      \<and> snd (last new) = Received res
      \<and> data res = Text html
      \<and> includesStr (toLowerCase html) (toLowerCase (XSS_PAYLOADS ! (length new - 1)))"
  using xssTest_reflected_finding
          [of loginLib echoNet "''POST''" "''http://t.example/save''" "[pwInput]" "''pw''"
              XSS_PAYLOADS "init_state loginUrl" pwInput]
        login_xssTest
  by (auto simp: init_state_def)

subsection \<open>The CSRF check\<close>

text \<open>
  C7: the CSRF check of a form adds the finding \<open>Cross-Site Request Forgery (CSRF)\<close>
  (severity Medium, category CSRF, location \<open>POST <action>\<close>) if and only if the form's
  method is POST, it has a sensitive input and it has no hidden csrf or token input; it
  adds nothing otherwise, and it makes no HTTP exchange. On a scanned page, the findings
  of category CSRF are those of the forms that meet the condition, in document order.
\<close>

theorem csrf_finding_iff:
  "vulnerabilities (csrfCheck lib targetUrl f st)
     = vulnerabilities st @ (if csrf_spec lib f then [csrfFinding targetUrl] else [])
   \<and> exchanges (csrfCheck lib targetUrl f st) = exchanges st
   \<and> endpointsTested (csrfCheck lib targetUrl f st) = endpointsTested st
   \<and> name (csrfFinding targetUrl) = ''Cross-Site Request Forgery (CSRF)''
   \<and> severity (csrfFinding targetUrl) = ''Medium''
   \<and> category (csrfFinding targetUrl) = ''CSRF''
   \<and> location (csrfFinding targetUrl) = ''POST '' @ targetUrl
   \<and> (net [] (axios_request page_url no_options) = Received res \<longrightarrow> data res = Text html \<longrightarrow>
        filter (\<lambda>v. category v = ''CSRF'')
          (vulnerabilities (out_state (scanPage lib net page_url)))
          = map (\<lambda>f. csrfFinding (formTarget lib page_url f))
              (filter (csrf_spec lib) (forms (load lib html))))"
proof -
  have page: "filter (\<lambda>v. category v = ''CSRF'')
                (vulnerabilities (out_state (scanPage lib net page_url)))
          = map (\<lambda>f. csrfFinding (formTarget lib page_url f))
              (filter (csrf_spec lib) (forms (load lib html)))"
    if h: "net [] (axios_request page_url no_options) = Received res" "data res = Text html"
  proof -
    from scanPage_vulnerabilities [of net page_url res html lib, OF h] obtain fs us where
      v: "vulnerabilities (out_state (scanPage lib net page_url))
            = concat fs @ concat us @ passiveFindings page_url (load lib html) res html"
      and fs: "list_all2 (formOrder lib page_url) (forms (load lib html)) fs"
      and us: "list_all2 (paramOrder lib page_url)
                 (case searchParams lib page_url of None \<Rightarrow> [] | Some ps \<Rightarrow> ps) us"
      by blast
    have "filter (\<lambda>v. category v = ''CSRF'') (concat fs)
            = concat (map (\<lambda>f. if csrf_spec lib f
                                then [csrfFinding (formTarget lib page_url f)] else [])
                        (forms (load lib html)))"
      using fs by (rule filter_concat_all2) (rule formOrder_csrf)
    moreover have "filter (\<lambda>v. category v = ''CSRF'') (concat us)
            = concat (map (\<lambda>p. [])
                        (case searchParams lib page_url of None \<Rightarrow> [] | Some ps \<Rightarrow> ps))"
      using us by (rule filter_concat_all2) (rule paramOrder_no_csrf)
    ultimately show ?thesis
      by (simp add: v passiveFindings_no_csrf concat_map_if)
  qed
  have "exchanges (csrfCheck lib targetUrl f st) = exchanges st"
       "endpointsTested (csrfCheck lib targetUrl f st) = endpointsTested st"
    by (simp_all add: csrfCheck_def push_def)
  then show ?thesis
    using page by (simp add: csrfCheck_vulnerabilities csrfPart_spec csrfFinding_def)
qed

theorem csrf_finding_iff_witness:
  "echoNet [] (axios_request loginUrl no_options)
     = Received \<lparr>status = 200, server = Some ''nginx/1.18.0'',
                 data = Text ''<html><body>http://t.example/login</body></html>''\<rparr>
   \<and> csrf_spec loginLib loginForm
   \<and> filter (\<lambda>v. category v = ''CSRF'')
        (vulnerabilities (out_state (scanPage loginLib echoNet loginUrl)))
      = [csrfFinding ''http://t.example/save'']
   \<and> location (csrfFinding ''http://t.example/save'') = ''POST http://t.example/save''"
proof -
  let ?res = "\<lparr>status = 200, server = Some ''nginx/1.18.0'',
                data = Text ''<html><body>http://t.example/login</body></html>''\<rparr>"
  have h1: "echoNet [] (axios_request loginUrl no_options) = Received ?res"
    by (simp add: echoNet_def axios_request_def no_options_def loginUrl_def)
  have h2: "data ?res = Text ''<html><body>http://t.example/login</body></html>''"
    by simp
  have spec: "csrf_spec loginLib loginForm"
    by (simp add: csrf_spec_def loginForm_def pwInput_def formMethod_def or_default_def
          upper_post hasType_def nameContains_def loginLib_def plainLib_def lower_password)
  have target: "formTarget loginLib loginUrl loginForm = ''http://t.example/save''"
    by (simp add: formTarget_def loginLib_def plainLib_def loginForm_def or_default_def)
  from csrf_finding_iff
         [of loginLib "''http://t.example/save''" loginForm "init_state loginUrl" echoNet
             loginUrl ?res "''<html><body>http://t.example/login</body></html>''"]
       h1 h2 spec target
  show ?thesis
    by (simp add: loginLib_def plainLib_def)
qed

subsection \<open>The order of the detectors\<close>

text \<open>
  C8, as the spec states it: the passive detectors run before the active ones, the XSS
  detectors before the SQL injection detectors, and the findings of the passive
  detectors come first in the result list. On the search page the worker sends, after
  the fetch of the page, the XSS probe of the form (D1), the SQL injection probe of the
  form (D3), the XSS probe of the URL parameter (D2) and its SQL injection probe (D4),
  each with its payload percent-encoded; the server reflects the first and the third and
  answers the second and the fourth with a database error. The result list holds the
  findings of D1, D3, D2 and D4 in this order, and the finding of the passive
  \<open>Server\<close> header check (D7) last.
\<close>

theorem search_scan_active_before_passive:
  "map name (vulnerabilities (out_state (scanPage searchLib searchNet searchUrl)))
     = [''Reflected XSS'', ''SQL Injection'', ''Reflected XSS (URL)'', ''SQL Injection (URL)'',
        ''Server Header Disclosure'']
   \<and> map (req_url \<circ> fst) (exchanges (out_state (scanPage searchLib searchNet searchUrl)))
     = [''http://t.example/search?q=foo'',
        ''http://t.example/search?q=%3Cscript%3Ealert%28%22XSS%22%29%3C%2Fscript%3E'',
        ''http://t.example/search?q=%27+OR+%271%27%3D%271'',
        ''http://t.example/search?q=%3Cscript%3Ealert%28%22XSS%22%29%3C%2Fscript%3E'',
        ''http://t.example/search?q=%27'']"
  by (simp add: search_scan xssFinding_def sqliFinding_def urlXssFinding_def
        urlSqliFinding_def serverFinding_def)

text \<open>
  C8, amended. The result list of a page scan is, in this order: for each form in
  document order, its CSRF finding (D5) and then, input by input, the XSS finding (D1)
  followed by the SQL injection finding (D3); then for each URL parameter the XSS
  finding (D2) followed by the SQL injection finding (D4); then the DOM sink findings
  (D6), the \<open>Server\<close> header finding and the database error finding (D7). The
  requests of a page scan are, in this order: the fetch of the page; for each form in
  document order and input by input, XSS probes in corpus order followed by SQL
  injection probes in corpus order; then for each URL parameter the XSS probe followed
  by the SQL injection probe. The CSRF check and the checks of D6 and D7 send none.
\<close>

theorem scanPage_detector_order:
  assumes "net [] (axios_request page_url no_options) = Received res"
      and "data res = Text html"
  shows "(\<exists>fs us. vulnerabilities (out_state (scanPage lib net page_url))
                   = concat fs @ concat us @ passiveFindings page_url (load lib html) res html
                \<and> list_all2 (formOrder lib page_url) (forms (load lib html)) fs
                \<and> list_all2 (paramOrder lib page_url)
                     (case searchParams lib page_url of None \<Rightarrow> [] | Some ps \<Rightarrow> ps) us)
       \<and> (\<exists>fe ue. exchanges (out_state (scanPage lib net page_url))
                   = (axios_request page_url no_options, Received res) # concat fe @ concat ue
                \<and> list_all2 (formProbes lib page_url) (forms (load lib html)) fe
                \<and> list_all2 (paramProbes lib page_url)
                     (case searchParams lib page_url of None \<Rightarrow> [] | Some ps \<Rightarrow> ps) ue)"
  using scanPage_vulnerabilities [of net page_url res html lib, OF assms]
        scanPage_exchanges [of net page_url res html lib, OF assms]
  by (rule conjI)

theorem scanPage_detector_order_witness:
  "searchNet [] (axios_request searchUrl no_options)
     = Received \<lparr>status = 200, server = Some ''nginx/1.18.0'',
                 data = Text searchHtml\<rparr>
   \<and> (\<exists>f u. vulnerabilities (out_state (scanPage searchLib searchNet searchUrl))
              = f @ u @ [serverFinding ''nginx/1.18.0'']
           \<and> formOrder searchLib searchUrl searchForm f
           \<and> paramOrder searchLib searchUrl ''q'' u)
   \<and> (\<exists>e p. exchanges (out_state (scanPage searchLib searchNet searchUrl))
              = (axios_request searchUrl no_options,
                 Received \<lparr>status = 200, server = Some ''nginx/1.18.0'',
                   data = Text searchHtml\<rparr>)
                # e @ p
           \<and> formProbes searchLib searchUrl searchForm e
           \<and> paramProbes searchLib searchUrl ''q'' p)"
proof -
  let ?html = "searchHtml"
  let ?res = "\<lparr>status = 200, server = Some ''nginx/1.18.0'', data = Text ?html\<rparr>"
  have h1: "searchNet [] (axios_request searchUrl no_options) = Received ?res"
    by (simp add: searchNet_def search_page)
  have h2: "data ?res = Text ?html"
    by simp
  have lib: "forms (load searchLib ?html) = [searchForm]"
            "searchParams searchLib searchUrl = Some [''q'']"
    by (simp_all add: search_page_form) (simp add: searchLib_def)
  have pas: "passiveFindings searchUrl (load searchLib ?html) ?res ?html
                   = [serverFinding ''nginx/1.18.0'']"
    using search_page_no_sql_error
    by (simp add: passiveFindings_def search_page_form del: containsSQLError.simps)
  note inst = scanPage_detector_order [of searchNet searchUrl ?res ?html searchLib, OF h1 h2]
  from inst obtain fs us where
    v: "vulnerabilities (out_state (scanPage searchLib searchNet searchUrl))
          = concat fs @ concat us @ passiveFindings searchUrl (load searchLib ?html) ?res ?html"
    and fs: "list_all2 (formOrder searchLib searchUrl) (forms (load searchLib ?html)) fs"
    and us: "list_all2 (paramOrder searchLib searchUrl)
               (case searchParams searchLib searchUrl of None \<Rightarrow> [] | Some ps \<Rightarrow> ps) us"
    by blast
  from inst obtain fe ue where
    x: "exchanges (out_state (scanPage searchLib searchNet searchUrl))
          = (axios_request searchUrl no_options, Received ?res) # concat fe @ concat ue"
    and fe: "list_all2 (formProbes searchLib searchUrl) (forms (load searchLib ?html)) fe"
    and ue: "list_all2 (paramProbes searchLib searchUrl)
               (case searchParams searchLib searchUrl of None \<Rightarrow> [] | Some ps \<Rightarrow> ps) ue"
    by blast
  from fs obtain f where f: "fs = [f]" "formOrder searchLib searchUrl searchForm f"
    unfolding lib by (auto simp: list_all2_Cons1)
  from us obtain u where u: "us = [u]" "paramOrder searchLib searchUrl ''q'' u"
    unfolding lib by (auto simp: list_all2_Cons1)
  from fe obtain e where e: "fe = [e]" "formProbes searchLib searchUrl searchForm e"
    unfolding lib by (auto simp: list_all2_Cons1)
  from ue obtain p where p: "ue = [p]" "paramProbes searchLib searchUrl ''q'' p"
    unfolding lib by (auto simp: list_all2_Cons1)
  have a: "\<exists>f u. vulnerabilities (out_state (scanPage searchLib searchNet searchUrl))
              = f @ u @ [serverFinding ''nginx/1.18.0'']
           \<and> formOrder searchLib searchUrl searchForm f
           \<and> paramOrder searchLib searchUrl ''q'' u"
    using v pas f u by (intro exI [of _ f] exI [of _ u]) simp
  have b: "\<exists>e p. exchanges (out_state (scanPage searchLib searchNet searchUrl))
              = (axios_request searchUrl no_options, Received ?res) # e @ p
           \<and> formProbes searchLib searchUrl searchForm e
           \<and> paramProbes searchLib searchUrl ''q'' p"
    using x e p by (intro exI [of _ e] exI [of _ p]) simp
  from h1 a b show ?thesis by (intro conjI)
qed

subsection \<open>The crawler\<close>

lemma crawl_ok_steps:
  "crawl_ok opts parse baseDomain st
     \<Longrightarrow> crawl_ok opts parse baseDomain (crawlPage opts parse site baseDomain u d st)"
  "crawl_ok opts parse baseDomain st
     \<Longrightarrow> crawl_ok opts parse baseDomain (crawlLinks opts parse site baseDomain ls d st)"
proof (induction opts parse site baseDomain u d st and opts parse site baseDomain ls d st
         rule: crawlPage_crawlLinks.induct)
  case (1 opts parse site baseDomain u d st)
  show ?case
  proof (cases "d > maxDepth opts \<or> u \<in> visitedUrls st
                \<or> length (crawledPages st) \<ge> maxPages opts
                \<or> \<not> shouldCrawlUrl opts parse baseDomain u")
    case True
    then show ?thesis
      using "1.prems" by (auto simp: crawlPage.simps [of opts parse site baseDomain u d st])
  next
    case False
    let ?st1 = "st\<lparr>visitedUrls := insert u (visitedUrls st)\<rparr>"
    show ?thesis
    proof (cases "site u")
      case None
      then show ?thesis
        using False "1.prems"
        by (simp add: crawlPage.simps [of opts parse site baseDomain u d st] crawl_ok_def)
    next
      case (Some got)
      let ?lks = "extractLinks opts parse baseDomain ?st1 (hrefs got)"
      let ?page = "\<lparr>url = u,
                     title = (if title_text got = [] then ''No Title'' else title_text got),
                     links = ?lks, page_forms = found_forms got, depth = d\<rparr>"
      let ?st2 = "?st1\<lparr>crawledPages := crawledPages ?st1 @ [?page]\<rparr>"
      have ok2: "crawl_ok opts parse baseDomain ?st2"
        using False "1.prems" by (auto simp: crawl_ok_def)
      have "crawlPage opts parse site baseDomain u d st
              = crawlLinks opts parse site baseDomain ?lks d ?st2"
        using False Some
        by (simp add: crawlPage.simps [of opts parse site baseDomain u d st] Let_def)
      moreover have "crawl_ok opts parse baseDomain
                       (crawlLinks opts parse site baseDomain ?lks d ?st2)"
        using False Some ok2 by (intro "1.IH") auto
      ultimately show ?thesis by simp
    qed
  qed
next
  case (2 opts parse site baseDomain d st)
  then show ?case by simp
next
  case (3 opts parse site baseDomain link rest d st)
  let ?st' = "if length (crawledPages st) < maxPages opts \<and> link \<notin> visitedUrls st
              then crawlPage opts parse site baseDomain link (d + 1) st else st"
  have "crawl_ok opts parse baseDomain ?st'"
    using "3.IH"(1) "3.prems" by auto
  then have "crawl_ok opts parse baseDomain
               (crawlLinks opts parse site baseDomain rest d ?st')"
    by (rule "3.IH"(2))
  then show ?case by simp
qed

text \<open>
  C2: every page of the crawler's result list passes \<open>shouldCrawlUrl\<close> for the seed's
  host name and has a depth of at most \<open>maxDepth\<close>; the list has at most \<open>maxPages\<close>
  pages, and is empty when \<open>maxPages = 0\<close>.
\<close>

theorem crawl_within_bounds:
  "(\<forall>p \<in> set (crawl opts parse site startUrl).
      (\<exists>seed. parse startUrl = Some seed
             \<and> shouldCrawlUrl opts parse (hostname seed) (url p))
      \<and> depth p \<le> maxDepth opts)
   \<and> length (crawl opts parse site startUrl) \<le> maxPages opts
   \<and> (maxPages opts = 0 \<longrightarrow> crawl opts parse site startUrl = [])"
proof (cases "parse startUrl")
  case None
  then show ?thesis by (simp add: crawl_def)
next
  case (Some seed)
  let ?st0 = "\<lparr>visitedUrls = {}, crawledPages = []\<rparr> :: 'a crawl_state"
  have "crawl_ok opts parse (hostname seed) ?st0"
    by (simp add: crawl_ok_def)
  then have "crawl_ok opts parse (hostname seed)
               (crawlPage opts parse site (hostname seed) startUrl 0 ?st0)"
    by (rule crawl_ok_steps(1))
  then show ?thesis
    using Some by (auto simp: crawl_def crawl_ok_def)
qed

lemma default_limits: "maxDepth defaultOptions = 3" "maxPages defaultOptions = 20"
  by (simp_all add: defaultOptions_def)

lemma tSite_in_scope:
  "shouldCrawlUrl defaultOptions tParse ''t.com'' ''http://t.com/''"
  "shouldCrawlUrl defaultOptions tParse ''t.com'' ''http://t.com/admin''"
  "shouldCrawlUrl defaultOptions tParse ''t.com'' ''http://t.com/users''"
  "shouldCrawlUrl defaultOptions tParse ''t.com'' ''http://t.com/home''"
  by code_simp+

lemma tParse_seed:
  "tParse ''http://t.com/'' = Some \<lparr>hostname = ''t.com'', pathname = ''/''\<rparr>"
  by (simp add: tParse_def)

lemma tSite_crawl:
  "crawl defaultOptions tParse tSite ''http://t.com/''
     = [\<lparr>url = ''http://t.com/'', title = ''T'',
         links = [''http://t.com/admin'', ''http://t.com/home''], page_forms = [], depth = 0\<rparr>,
        \<lparr>url = ''http://t.com/admin'', title = ''Admin'',
         links = [''http://t.com/users''], page_forms = [], depth = 1\<rparr>,
        \<lparr>url = ''http://t.com/users'', title = ''Users'',
         links = [], page_forms = [], depth = 2\<rparr>,
        \<lparr>url = ''http://t.com/home'', title = ''Home'',
         links = [], page_forms = [], depth = 1\<rparr>]"
  by (simp add: crawl_def crawlPage.simps tParse_seed tSite_def default_limits
        tSite_in_scope extractLinks_def Let_def)

theorem crawl_within_bounds_witness:
  "map url (crawl defaultOptions tParse tSite ''http://t.com/'')
     = [''http://t.com/'', ''http://t.com/admin'', ''http://t.com/users'', ''http://t.com/home'']
   \<and> shouldCrawlUrl defaultOptions tParse ''t.com'' ''http://t.com/users''
   \<and> (2 :: nat) \<le> maxDepth defaultOptions
   \<and> length (crawl defaultOptions tParse tSite ''http://t.com/'') \<le> maxPages defaultOptions
   \<and> crawl (defaultOptions\<lparr>maxPages := 0\<rparr>) tParse tSite ''http://t.com/'' = []"
proof -
  have zero: "maxPages (defaultOptions\<lparr>maxPages := 0\<rparr>) = 0"
    by simp
  from crawl_within_bounds [of defaultOptions tParse tSite "''http://t.com/''"]
       crawl_within_bounds [of "defaultOptions\<lparr>maxPages := 0\<rparr>" tParse tSite "''http://t.com/''"]
       zero
  show ?thesis
    by (simp add: tSite_crawl tParse_seed)
qed

text \<open>
  C3: the crawl of the example site. The page \<open>/users\<close>, found at depth 2 through
  \<open>/admin\<close>, is in the result list before \<open>/home\<close>, found at depth 1: \<open>crawlPage\<close>
  follows the links of a page to the end before it goes on with the page's next
  sibling, so the list is in depth-first order, not in breadth-first order.
\<close>

theorem crawl_order_is_depth_first:
  "map (\<lambda>p. (url p, depth p)) (crawl defaultOptions tParse tSite ''http://t.com/'')
     = [(''http://t.com/'', 0), (''http://t.com/admin'', 1),
        (''http://t.com/users'', 2), (''http://t.com/home'', 1)]"
  by (simp add: tSite_crawl)

subsection \<open>The scope policy\<close>

text \<open>
  C4: with the seed host \<open>testphp.vulnweb.com\<close> the root domain is \<open>vulnweb.com\<close>.
  The host \<open>evilvulnweb.com\<close> is neither the root nor a subdomain of it (it does not
  end with \<open>.vulnweb.com\<close>), and \<open>shouldCrawlUrl\<close> accepts it: the host test is
  \<open>hostname.endsWith(rootDomain)\<close>, with no label boundary.
\<close>

theorem shouldCrawlUrl_accepts_suffix_host:
  "rootDomain ''testphp.vulnweb.com'' = ''vulnweb.com''
   \<and> ''evilvulnweb.com'' \<noteq> ''vulnweb.com''
   \<and> \<not> endsWith ''evilvulnweb.com'' ''.vulnweb.com''
   \<and> shouldCrawlUrl defaultOptions vParse ''testphp.vulnweb.com'' ''http://evilvulnweb.com/''"
  by code_simp

subsection \<open>Progress events\<close>

subsection \<open>Rounding to a double\<close>

lemma ilog2_bounds:
  assumes "0 < x"
  shows "2 powi ilog2 x \<le> x" and "x < 2 powi (ilog2 x + 1)"
proof -
  obtain p q where pq: "quotient_of x = (p, q)" by (cases "quotient_of x")
  then have q: "0 < q" by (rule quotient_of_denom_pos)
  from pq have x: "x = of_int p / of_int q" by (rule quotient_of_div)
  with assms q have p: "0 < p"
    by (simp add: zero_less_divide_iff)
  define bp where "bp = bitlen p"
  define bq where "bq = bitlen q"
  from bitlen_bounds [OF p] have bp: "2 ^ nat (bp - 1) \<le> p" "p < 2 ^ nat bp"
    by (simp_all add: bp_def)
  from bitlen_bounds [OF q] have bq: "2 ^ nat (bq - 1) \<le> q" "q < 2 ^ nat bq"
    by (simp_all add: bq_def)
  have bp1: "1 \<le> bp" using p by (auto simp: bp_def bitlen_alt_def)
  have bq1: "1 \<le> bq" using q by (auto simp: bq_def bitlen_alt_def)
  have P1: "(2 :: rat) powi (bp - 1) \<le> of_int p"
  proof -
    have "(of_int (2 ^ nat (bp - 1)) :: rat) \<le> of_int p"
      using bp(1) by (simp only: of_int_le_iff)
    then show ?thesis using bp1 by (simp add: power_int_def)
  qed
  have P2: "(of_int p :: rat) < 2 powi bp"
  proof -
    have "(of_int p :: rat) < of_int (2 ^ nat bp)"
      using bp(2) by (simp only: of_int_less_iff)
    then show ?thesis using bp1 by (simp add: power_int_def)
  qed
  have Q1: "(2 :: rat) powi (bq - 1) \<le> of_int q"
  proof -
    have "(of_int (2 ^ nat (bq - 1)) :: rat) \<le> of_int q"
      using bq(1) by (simp only: of_int_le_iff)
    then show ?thesis using bq1 by (simp add: power_int_def)
  qed
  have Q2: "(of_int q :: rat) < 2 powi bq"
  proof -
    have "(of_int q :: rat) < of_int (2 ^ nat bq)"
      using bq(2) by (simp only: of_int_less_iff)
    then show ?thesis using bq1 by (simp add: power_int_def)
  qed
  have qpos: "(0 :: rat) < of_int q" using q by simp
  have pw: "(0 :: rat) < 2 powi k" for k by (simp add: zero_less_power_int)
  have up: "x < 2 powi (bp - bq + 1)"
  proof -
    have "x < 2 powi bp / of_int q"
      unfolding x using P2 qpos by (simp add: divide_strict_right_mono)
    also have "\<dots> \<le> 2 powi bp / 2 powi (bq - 1)"
      using Q1 pw [of "bq - 1"] pw [of bp] by (simp add: frac_le)
    also have "\<dots> = 2 powi (bp - (bq - 1))"
      by (simp add: power_int_diff)
    finally show ?thesis by (simp add: algebra_simps)
  qed
  have lo: "2 powi (bp - bq - 1) \<le> x"
  proof -
    have "2 powi (bp - bq - 1) = (2 :: rat) powi (bp - 1) / 2 powi bq"
      by (simp add: power_int_diff [symmetric] algebra_simps)
    also have "\<dots> \<le> of_int p / 2 powi bq"
      using P1 pw [of bq] by (simp add: divide_right_mono)
    also have "\<dots> \<le> of_int p / of_int q"
      using Q2 qpos p by (simp add: frac_le)
    finally show ?thesis by (simp add: x)
  qed
  have d: "ilog2 x = (if 2 powi (bp - bq) \<le> x then bp - bq else bp - bq - 1)"
    by (simp add: ilog2_def pq bp_def bq_def Let_def)
  show "2 powi ilog2 x \<le> x"
    using lo by (simp add: d)
  show "x < 2 powi (ilog2 x + 1)"
    using up by (auto simp: d not_le)
qed

lemma ilog2_mono:
  assumes "0 < x" and "x \<le> y"
  shows "ilog2 x \<le> ilog2 y"
proof (rule ccontr)
  assume "\<not> ilog2 x \<le> ilog2 y"
  then have "ilog2 y + 1 \<le> ilog2 x" by simp
  then have "(2 :: rat) powi (ilog2 y + 1) \<le> 2 powi ilog2 x"
    by (rule power_int_increasing) simp
  also have "\<dots> \<le> x" using assms(1) by (rule ilog2_bounds)
  also have "\<dots> \<le> y" by fact
  finally have "2 powi (ilog2 y + 1) \<le> y" .
  moreover have "y < 2 powi (ilog2 y + 1)"
    using assms by (intro ilog2_bounds) simp
  ultimately show False by simp
qed

lemma rne_bounds: "\<lfloor>y\<rfloor> \<le> rne y" "rne y \<le> \<lfloor>y\<rfloor> + 1"
  by (simp_all add: rne_def Let_def)

lemma rne_of_int [simp]: "rne (of_int n) = n"
  by (simp add: rne_def)

lemma rne_mono:
  assumes "y \<le> y'"
  shows "rne y \<le> rne y'"
proof (cases "\<lfloor>y\<rfloor> = \<lfloor>y'\<rfloor>")
  case True
  with assms have "y - of_int \<lfloor>y\<rfloor> \<le> y' - of_int \<lfloor>y'\<rfloor>" by simp
  with True show ?thesis
    by (auto simp: rne_def Let_def)
next
  case False
  with assms have "\<lfloor>y\<rfloor> < \<lfloor>y'\<rfloor>"
    using floor_mono [OF assms] by simp
  then have "rne y \<le> \<lfloor>y'\<rfloor>"
    using rne_bounds(2) [of y] by simp
  also have "\<dots> \<le> rne y'" by (rule rne_bounds)
  finally show ?thesis .
qed

lemma fl_zero [simp]: "fl 0 = 0"
  by (simp add: fl_def)

lemma fl_pos_eq:
  "0 < x \<Longrightarrow> fl x = of_int (rne (x / 2 powi (ilog2 x - 52))) * 2 powi (ilog2 x - 52)"
  by (simp add: fl_def Let_def)

lemma fl_nonneg:
  assumes "0 \<le> x"
  shows "0 \<le> fl x"
proof (cases "x = 0")
  case True
  then show ?thesis by simp
next
  case False
  with assms have x: "0 < x" by simp
  have "0 \<le> x / 2 powi (ilog2 x - 52)"
    using x by (simp add: zero_less_power_int less_imp_le)
  then have "rne (of_int 0) \<le> rne (x / 2 powi (ilog2 x - 52))"
    by (intro rne_mono) simp
  then have "0 \<le> rne (x / 2 powi (ilog2 x - 52))" by (simp add: rne_def)
  then show ?thesis
    using x by (simp add: fl_pos_eq zero_less_power_int less_imp_le)
qed

lemma fl_mono:
  assumes "0 \<le> x" and "x \<le> y"
  shows "fl x \<le> fl y"
proof (cases "x = 0")
  case True
  with assms show ?thesis by (simp add: fl_nonneg)
next
  case False
  with assms have x: "0 < x" and y: "0 < y" by simp_all
  let ?u = "(2 :: rat) powi (ilog2 x - 52)"
  let ?v = "(2 :: rat) powi (ilog2 y - 52)"
  have u: "0 < ?u" and v: "0 < ?v" by (simp_all add: zero_less_power_int)
  show ?thesis
  proof (cases "ilog2 x = ilog2 y")
    case True
    have "x / ?u \<le> y / ?u"
      using assms(2) u by (simp add: divide_right_mono)
    then have "rne (x / ?u) \<le> rne (y / ?u)" by (rule rne_mono)
    then have "of_int (rne (x / ?u)) * ?u \<le> of_int (rne (y / ?u)) * ?u"
      using u by (simp add: mult_right_mono)
    then show ?thesis
      using x y True by (simp add: fl_pos_eq)
  next
    case False
    with ilog2_mono [OF x assms(2)] have lt: "ilog2 x + 1 \<le> ilog2 y" by simp
    have "x / ?u < 2 powi (ilog2 x + 1) / ?u"
      using ilog2_bounds(2) [OF x] u by (simp add: divide_strict_right_mono)
    also have "\<dots> = 2 powi 53"
      by (simp add: power_int_diff [symmetric])
    finally have "x / ?u \<le> of_int (2 ^ 53)" by simp
    then have "rne (x / ?u) \<le> rne (of_int (2 ^ 53))" by (rule rne_mono)
    then have "(of_int (rne (x / ?u)) :: rat) \<le> 2 ^ 53"
      by (simp only: rne_of_int) (metis of_int_le_iff of_int_numeral of_int_power)
    then have "of_int (rne (x / ?u)) * ?u \<le> 2 ^ 53 * ?u"
      using u by (simp add: mult_right_mono)
    also have "\<dots> = 2 powi (ilog2 x + 1)"
    proof -
      have "(2 :: rat) ^ 53 * ?u = 2 powi 53 * ?u" by simp
      also have "\<dots> = 2 powi (53 + (ilog2 x - 52))"
        by (subst power_int_add) simp_all
      finally show ?thesis by (simp add: algebra_simps)
    qed
    also have "\<dots> \<le> 2 powi ilog2 y"
      using lt by (rule power_int_increasing) simp
    also have "\<dots> = 2 ^ 52 * ?v"
    proof -
      have "(2 :: rat) ^ 52 * ?v = 2 powi 52 * ?v" by simp
      also have "\<dots> = 2 powi (52 + (ilog2 y - 52))"
        by (subst power_int_add) simp_all
      finally show ?thesis by (simp add: algebra_simps)
    qed
    also have "\<dots> \<le> of_int (rne (y / ?v)) * ?v"
    proof -
      have "2 powi ilog2 y / ?v \<le> y / ?v"
        using ilog2_bounds(1) [OF y] v by (simp add: divide_right_mono)
      moreover have "2 powi ilog2 y / ?v = of_int (2 ^ 52)"
        by (simp add: power_int_diff [symmetric])
      ultimately have "rne (of_int (2 ^ 52)) \<le> rne (y / ?v)"
        by (intro rne_mono) simp
      then have "(2 ^ 52 :: rat) \<le> of_int (rne (y / ?v))"
        by (simp only: rne_of_int) (metis of_int_le_iff of_int_numeral of_int_power)
      then show ?thesis
        using v by (simp add: mult_right_mono)
    qed
    finally show ?thesis
      using x y by (simp add: fl_pos_eq)
  qed
qed

lemma fl_exact: "fl 1 = 1" "fl 30 = 30" "fl 70 = 70" "fl 100 = 100"
  by code_simp+

lemma Math_round_mono: "x \<le> y \<Longrightarrow> Math_round x \<le> Math_round y"
  by (simp add: Math_round_def floor_mono)

lemma Math_round_of_int: "Math_round (of_int n) = n"
proof -
  have "\<lfloor>of_int n + (1 / 2 :: rat)\<rfloor> = n"
    by (rule floor_unique) simp_all
  then show ?thesis by (simp add: Math_round_def)
qed

lemma Math_round_numeral: "Math_round 30 = 30" "Math_round 100 = 100"
  using Math_round_of_int [of 30] Math_round_of_int [of 100] by simp_all

lemma js_div_nonneg: "0 \<le> js_div (of_nat a) (of_nat b)"
  by (simp add: js_div_def fl_nonneg)

lemma js_div_mono: "a \<le> a' \<Longrightarrow> js_div (of_nat a) (of_nat b) \<le> js_div (of_nat a') (of_nat b)"
  unfolding js_div_def by (rule fl_mono) (simp_all add: divide_right_mono)

lemma js_div_self: "0 < b \<Longrightarrow> js_div (of_nat b) (of_nat b) = 1"
  by (simp add: js_div_def fl_exact)

lemma js_mul_nonneg: "0 \<le> x \<Longrightarrow> 0 \<le> k \<Longrightarrow> 0 \<le> js_mul x k"
  by (simp add: js_mul_def fl_nonneg)

lemma js_mul_mono: "0 \<le> x \<Longrightarrow> x \<le> y \<Longrightarrow> 0 \<le> k \<Longrightarrow> js_mul x k \<le> js_mul y k"
  unfolding js_mul_def by (rule fl_mono) (simp_all add: mult_right_mono)

lemma js_add_mono: "0 \<le> x \<Longrightarrow> x \<le> y \<Longrightarrow> js_add 30 x \<le> js_add 30 y"
  unfolding js_add_def by (rule fl_mono) simp_all

subsection \<open>Percentages\<close>

lemma round_scaled_mono: "a \<le> a' \<Longrightarrow> round_scaled a b k \<le> round_scaled a' b k"
  unfolding round_scaled_def
  by (intro nat_mono Math_round_mono js_mul_mono js_div_mono js_div_nonneg) simp_all

lemma round_scaled_full:
  "0 < b \<Longrightarrow> round_scaled b b 30 = 30"
  "0 < b \<Longrightarrow> round_scaled b b 100 = 100"
  by (simp_all add: round_scaled_def js_div_self js_mul_def fl_exact Math_round_numeral)

lemma round_scaled_le:
  "0 < b \<Longrightarrow> a \<le> b \<Longrightarrow> round_scaled a b 30 \<le> 30"
  "0 < b \<Longrightarrow> a \<le> b \<Longrightarrow> round_scaled a b 100 \<le> 100"
  using round_scaled_mono [of a b b 30] round_scaled_mono [of a b b 100]
  by (simp_all add: round_scaled_full)

lemma scanning_percent_mono: "a \<le> a' \<Longrightarrow> scanning_percent a b \<le> scanning_percent a' b"
  unfolding scanning_percent_def Let_def
  by (intro nat_mono Math_round_mono js_add_mono js_mul_mono js_mul_nonneg js_div_mono
        js_div_nonneg) simp_all

lemma scanning_percent_ge: "30 \<le> scanning_percent a b"
proof -
  have "0 \<le> js_mul (js_div (of_nat a) (of_nat (max b 1))) 70"
    by (intro js_mul_nonneg js_div_nonneg) simp
  then have "fl 30 \<le> js_add 30 (js_mul (js_div (of_nat a) (of_nat (max b 1))) 70)"
    unfolding js_add_def by (intro fl_mono) simp_all
  then have "Math_round 30 \<le> Math_round (js_add 30 (js_mul (js_div (of_nat a) (of_nat (max b 1))) 70))"
    by (intro Math_round_mono) (simp add: fl_exact)
  then show ?thesis
    by (simp add: scanning_percent_def Let_def Math_round_numeral)
qed

lemma scanning_percent_full: "0 < b \<Longrightarrow> scanning_percent b b = 100"
  by (simp add: scanning_percent_def Let_def max_absorb1 js_div_self js_mul_def js_add_def
        fl_exact Math_round_numeral)

lemma scanning_percent_le: "a \<le> max b 1 \<Longrightarrow> scanning_percent a b \<le> 100"
proof -
  assume "a \<le> max b 1"
  then have "scanning_percent a (max b 1) \<le> scanning_percent (max b 1) (max b 1)"
    by (rule scanning_percent_mono)
  moreover have "scanning_percent a (max b 1) = scanning_percent a b"
    by (simp add: scanning_percent_def)
  ultimately show ?thesis
    by (simp add: scanning_percent_full)
qed

lemma crawl_progress_mono:
  assumes "c \<le> c'"
  shows "round_scaled c (max (max T c) 1) 30 \<le> round_scaled c' (max (max T c') 1) 30"
proof (cases "c' \<le> max T 1")
  case True
  with assms have "max (max T c) 1 = max T 1" "max (max T c') 1 = max T 1"
    by auto
  with assms show ?thesis by (simp add: round_scaled_mono)
next
  case False
  then have "max (max T c') 1 = c'" "0 < c'" by auto
  then have "round_scaled c' (max (max T c') 1) 30 = 30"
    by (simp add: round_scaled_full)
  moreover have "round_scaled c (max (max T c) 1) 30 \<le> 30"
    by (rule round_scaled_le) auto
  ultimately show ?thesis by simp
qed

lemma crawl_progress_le: "round_scaled c (max (max pages c) 1) 30 \<le> 30"
  by (rule round_scaled_le) auto

subsection \<open>The events of the server\<close>

lemma sorted_map_mono:
  assumes "sorted xs" and "\<And>x y. x \<le> y \<Longrightarrow> f x \<le> (f y :: nat)"
  shows "sorted (map f (xs :: nat list))"
  using assms(1) by (induction xs) (auto intro: assms(2))

lemma sorted_map_comp:
  assumes "sorted (map g xs)" and "\<And>x y. x \<le> y \<Longrightarrow> f x \<le> (f y :: nat)"
  shows "sorted (map (\<lambda>x. f (g x :: nat)) xs)"
  using sorted_map_mono [OF assms(1), of f] assms(2) by (simp add: comp_def)

lemma events_of_startScan:
  "events_of sid (startScan sid pages ws) = events_of sid ws @ [start_event pages]"
  "scanProgress (startScan sid pages ws) sid = Some (start_event pages)"
  by (simp_all add: startScan_def broadcastProgress_def events_of_def start_event_def Let_def)

lemma events_of_crawling:
  assumes "scanProgress ws sid = Some p"
  shows "events_of sid (updateCrawlingProgress sid c ws) = events_of sid ws @ [crawl_event p c]"
    and "scanProgress (updateCrawlingProgress sid c ws) sid = Some (crawl_event p c)"
  using assms
  by (simp_all add: updateCrawlingProgress_def broadcastProgress_def events_of_def
        crawl_event_def Let_def)

lemma events_of_scanning:
  assumes "scanProgress ws sid = Some p"
  shows "events_of sid (updateScanningProgress sid u ws) = events_of sid ws @ [scan_event p u]"
    and "scanProgress (updateScanningProgress sid u ws) sid = Some (scan_event p u)"
  using assms
  by (simp_all add: updateScanningProgress_def broadcastProgress_def events_of_def
        scan_event_def Let_def)

lemma events_of_errorScan:
  assumes "scanProgress ws sid = Some p"
  shows "events_of sid (errorScan sid err ws) = events_of sid ws @ [error_event p]"
    and "scanProgress (errorScan sid err ws) sid = Some (error_event p)"
  using assms
  by (simp_all add: errorScan_def broadcastProgress_def events_of_def error_event_def Let_def)

lemma events_of_completeScan:
  assumes "scanProgress ws sid = Some p"
  shows "events_of sid (completeScan sid finalStats ws)
           = events_of sid ws @ [complete_event p finalStats]"
  using assms
  by (simp add: completeScan_def broadcastProgress_def events_of_def complete_event_def Let_def)

lemma crawl_event_again: "c \<le> c' \<Longrightarrow> crawl_event (crawl_event p c) c' = crawl_event p c'"
  by (simp add: crawl_event_def max.assoc max_absorb2)

lemma scan_event_again: "scan_event (scan_event p u) u' = scan_event p u'"
  by (simp add: scan_event_def)

lemma crawling_run:
  assumes "scanProgress ws sid = Some p" and "sorted cs"
  shows "events_of sid (fold (updateCrawlingProgress sid) cs ws)
           = events_of sid ws @ map (crawl_event p) cs
       \<and> scanProgress (fold (updateCrawlingProgress sid) cs ws) sid
           = Some (if cs = [] then p else crawl_event p (last cs))"
  using assms
proof (induction cs arbitrary: ws p)
  case Nil
  then show ?case by simp
next
  case (Cons c cs)
  let ?ws = "updateCrawlingProgress sid c ws"
  from Cons.prems(1) have ws': "scanProgress ?ws sid = Some (crawl_event p c)"
    and ev: "events_of sid ?ws = events_of sid ws @ [crawl_event p c]"
    by (simp_all add: events_of_crawling)
  from Cons.prems(2) have s: "sorted cs" and le: "\<forall>c' \<in> set cs. c \<le> c'"
    by simp_all
  from le have m: "map (crawl_event (crawl_event p c)) cs = map (crawl_event p) cs"
    by (simp add: crawl_event_again)
  from le have l: "cs \<noteq> [] \<Longrightarrow> crawl_event (crawl_event p c) (last cs) = crawl_event p (last cs)"
    by (simp add: crawl_event_again)
  from Cons.IH [OF ws' s] show ?case
    by (simp add: ev m l)
qed

lemma scanning_run:
  assumes "scanProgress ws sid = Some p"
  shows "events_of sid (fold (\<lambda>e. updateScanningProgress sid (scanning_update_of e)) es ws)
           = events_of sid ws @ map (\<lambda>e. scan_event p (scanning_update_of e)) es
       \<and> scanProgress (fold (\<lambda>e. updateScanningProgress sid (scanning_update_of e)) es ws) sid
           = Some (if es = [] then p else scan_event p (scanning_update_of (last es)))"
  using assms
proof (induction es arbitrary: ws p)
  case Nil
  then show ?case by simp
next
  case (Cons e es)
  let ?ws = "updateScanningProgress sid (scanning_update_of e) ws"
  from Cons.prems have ws': "scanProgress ?ws sid = Some (scan_event p (scanning_update_of e))"
    and ev: "events_of sid ?ws = events_of sid ws @ [scan_event p (scanning_update_of e)]"
    by (simp_all add: events_of_scanning)
  from Cons.IH [OF ws'] show ?case
    by (simp add: ev scan_event_again)
qed

subsection \<open>The events of the worker pool\<close>

lemma pool_percent_mono: "a \<le> b \<Longrightarrow> pool_percent pages a \<le> pool_percent pages b"
  by (simp add: pool_percent_def round_scaled_mono)

lemma pool_percent_le: "a \<le> pages \<Longrightarrow> pool_percent pages a \<le> 100"
  by (simp add: pool_percent_def round_scaled_le)

lemma handleWorkerResult_none:
  "scanStates pool sid = None
     \<Longrightarrow> fold (handleWorkerResult sid) ds (pool, st) = (pool, st)"
  by (induction ds) (simp_all add: handleWorkerResult_def updateScanStats_def)

lemma count_result_fields:
  "pool_totalPages (count_result st d) = pool_totalPages st"
  "pool_pagesScanned (count_result st d) = min (pool_pagesScanned st + 1) (pool_totalPages st)"
  "pool_vulnerabilitiesFound (count_result st d)
     = pool_vulnerabilitiesFound st + length (result_findings d)"
  "pool_formsFound st \<le> pool_formsFound (count_result st d)"
  "pool_endpointsTested st \<le> pool_endpointsTested (count_result st d)"
  by (simp_all add: count_result_def result_findings_def Let_def split: option.splits)

lemma progress_event_fields:
  "ev_pagesScanned (progress_event s) = pool_pagesScanned s"
  "ev_totalPages (progress_event s) = pool_totalPages s"
  "ev_vulnerabilitiesFound (progress_event s) = pool_vulnerabilitiesFound s"
  "ev_formsFound (progress_event s) = pool_formsFound s"
  "ev_endpointsTested (progress_event s) = pool_endpointsTested s"
  "ev_progress (progress_event s) = pool_percent (pool_totalPages s) (pool_pagesScanned s)"
  by (simp_all add: progress_event_def pool_percent_def)

lemma pool_le_count_result:
  assumes "pool_pagesScanned st \<le> pool_totalPages st" and "pool_le (count_result st d) e"
  shows "pool_le st e"
proof -
  from assms(1) have "pool_pagesScanned st \<le> pool_pagesScanned (count_result st d)"
    by (simp add: count_result_fields)
  moreover have "pool_vulnerabilitiesFound st \<le> pool_vulnerabilitiesFound (count_result st d)"
    by (simp add: count_result_fields)
  ultimately show ?thesis
    using assms(2) count_result_fields(4,5) [of st d]
    unfolding pool_le_def count_result_fields(1)
    by (meson order_trans)
qed

lemma pool_le_progress_event:
  assumes "pool_pagesScanned st \<le> pool_totalPages st"
  shows "pool_le st (progress_event (count_result st d))"
  using assms count_result_fields(4,5) [of st d]
  by (simp add: pool_le_def progress_event_fields count_result_fields)

lemma pool_ge_count_result:
  assumes "pool_pagesScanned st \<le> pool_totalPages st"
      and "pool_ge st' (progress_event (count_result st d))"
  shows "pool_ge st' (progress_event st)"
proof -
  from assms(1) have "pool_pagesScanned st \<le> pool_pagesScanned (count_result st d)"
    by (simp add: count_result_fields)
  moreover have "pool_vulnerabilitiesFound st \<le> pool_vulnerabilitiesFound (count_result st d)"
    by (simp add: count_result_fields)
  ultimately show ?thesis
    using assms(2) count_result_fields(4,5) [of st d]
    unfolding pool_ge_def progress_event_fields
    by (meson order_trans)
qed

lemma pool_ge_trans:
  assumes "pool_ge s e" and "pool_ge st' (progress_event s)"
  shows "pool_ge st' e"
  using assms unfolding pool_ge_def progress_event_fields by (meson order_trans)

lemma pool_ge_refl: "pool_ge s (progress_event s)"
  by (simp add: pool_ge_def progress_event_fields)

lemma pool_run:
  assumes "scanStates pool sid = Some st" and "pool_pagesScanned st \<le> pool_totalPages st"
  shows "\<exists>new pool' st'. fold (handleWorkerResult sid) ds (pool, st) = (pool', st')
            \<and> pool_events sid pool' = pool_events sid pool @ new
            \<and> sorted (map ev_pagesScanned new)
            \<and> sorted (map ev_vulnerabilitiesFound new)
            \<and> sorted (map ev_formsFound new)
            \<and> sorted (map ev_endpointsTested new)
            \<and> (\<forall>e \<in> set new. pool_le st e)
            \<and> (\<forall>e \<in> set new. pool_ge st' e)
            \<and> pool_ge st' (progress_event st)
            \<and> pool_totalPages st' = pool_totalPages st
            \<and> pool_pagesScanned st' \<le> pool_totalPages st'
            \<and> pool_vulnerabilitiesFound st'
                 \<le> pool_vulnerabilitiesFound st + length (concat (map result_findings ds))"
  using assms
proof (induction ds arbitrary: pool st)
  case Nil
  then show ?case by (simp add: pool_ge_refl)
next
  case (Cons d ds)
  let ?s = "count_result st d"
  let ?e = "progress_event ?s"
  let ?pool = "updateScanStats sid d pool"
  have step: "handleWorkerResult sid d (pool, st) = (?pool, ?s)"
    using Cons.prems(1) by (simp add: handleWorkerResult_def)
  have ev: "pool_events sid ?pool = pool_events sid pool @ [?e]"
    using Cons.prems(1) by (simp add: updateScanStats_def pool_events_def Let_def)
  have next_state: "scanStates ?pool sid
           = (if pool_pagesScanned ?s \<ge> pool_totalPages ?s then None else Some ?s)"
    using Cons.prems(1) by (simp add: updateScanStats_def Let_def)
  have e: "pool_le st ?e"
    using Cons.prems(2) by (rule pool_le_progress_event)
  have le: "pool_pagesScanned ?s \<le> pool_totalPages ?s"
    by (simp add: count_result_fields)
  show ?case
  proof (cases "pool_pagesScanned ?s \<ge> pool_totalPages ?s")
    case True
    with next_state have "scanStates ?pool sid = None" by simp
    then have "fold (handleWorkerResult sid) ds (?pool, ?s) = (?pool, ?s)"
      by (rule handleWorkerResult_none)
    then have f: "fold (handleWorkerResult sid) (d # ds) (pool, st) = (?pool, ?s)"
      by (simp add: step)
    have g: "pool_ge ?s (progress_event st)"
      using Cons.prems(2) pool_ge_refl [of ?s] by (rule pool_ge_count_result)
    have v: "pool_vulnerabilitiesFound ?s
               \<le> pool_vulnerabilitiesFound st + length (concat (map result_findings (d # ds)))"
      by (simp add: count_result_fields)
    show ?thesis
      using f ev e g le v pool_ge_refl [of ?s]
      by (intro exI [of _ "[?e]"] exI [of _ ?pool] exI [of _ ?s])
         (simp add: count_result_fields(1))
  next
    case False
    with next_state have st': "scanStates ?pool sid = Some ?s" by simp
    from Cons.IH [OF st' le] obtain new pool' st' where
      new: "fold (handleWorkerResult sid) ds (?pool, ?s) = (pool', st')"
           "pool_events sid pool' = pool_events sid ?pool @ new"
           "sorted (map ev_pagesScanned new)"
           "sorted (map ev_vulnerabilitiesFound new)"
           "sorted (map ev_formsFound new)"
           "sorted (map ev_endpointsTested new)"
           "\<forall>x \<in> set new. pool_le ?s x"
           "\<forall>x \<in> set new. pool_ge st' x"
           "pool_ge st' ?e"
           "pool_totalPages st' = pool_totalPages ?s"
           "pool_pagesScanned st' \<le> pool_totalPages st'"
           "pool_vulnerabilitiesFound st'
              \<le> pool_vulnerabilitiesFound ?s + length (concat (map result_findings ds))"
      by blast
    have 1: "fold (handleWorkerResult sid) (d # ds) (pool, st) = (pool', st')"
      using new(1) by (simp add: step)
    have 2: "pool_events sid pool' = pool_events sid pool @ (?e # new)"
      using new(2) by (simp add: ev)
    have 3: "sorted (map ev_pagesScanned (?e # new))"
      "sorted (map ev_vulnerabilitiesFound (?e # new))"
      "sorted (map ev_formsFound (?e # new))"
      "sorted (map ev_endpointsTested (?e # new))"
      using new(3-7) by (simp_all add: pool_le_def progress_event_fields)
    have 4: "\<forall>x \<in> set (?e # new). pool_le st x"
      using e new(7) pool_le_count_result [OF Cons.prems(2)] by auto
    have 5: "\<forall>x \<in> set (?e # new). pool_ge st' x"
      using new(8,9) by simp
    have 6: "pool_ge st' (progress_event st)"
      using Cons.prems(2) new(9) by (rule pool_ge_count_result)
    have 7: "pool_totalPages st' = pool_totalPages st"
      using new(10) by (simp add: count_result_fields)
    have 8: "pool_vulnerabilitiesFound st'
               \<le> pool_vulnerabilitiesFound st + length (concat (map result_findings (d # ds)))"
      using new(12) by (simp add: count_result_fields)
    from 1 2 3 4 5 6 7 8 new(11) show ?thesis by blast
  qed
qed

lemma scanPages_run:
  "\<exists>new st'. scanPages_events sid n ds pool = new @ [completion_event st']
      \<and> snd (scanPages sid n ds pool) = st'
      \<and> sorted (map ev_pagesScanned new)
      \<and> sorted (map ev_vulnerabilitiesFound new)
      \<and> sorted (map ev_formsFound new)
      \<and> sorted (map ev_endpointsTested new)
      \<and> (\<forall>e \<in> set new. ev_progress e = pool_percent n (ev_pagesScanned e))
      \<and> (\<forall>e \<in> set new. pool_ge st' e)
      \<and> pool_pagesScanned st' \<le> n
      \<and> pool_vulnerabilitiesFound st' \<le> length (concat (map result_findings ds))"
proof -
  let ?st = "newScanState n"
  let ?pool = "pool\<lparr>scanStates := (scanStates pool)(sid \<mapsto> ?st)\<rparr>"
  have a: "scanStates ?pool sid = Some ?st" by simp
  have b: "pool_pagesScanned ?st \<le> pool_totalPages ?st" by (simp add: newScanState_def)
  from pool_run [OF a b, of ds] obtain new pool' st' where
    new: "fold (handleWorkerResult sid) ds (?pool, ?st) = (pool', st')"
         "pool_events sid pool' = pool_events sid ?pool @ new"
         "sorted (map ev_pagesScanned new)"
         "sorted (map ev_vulnerabilitiesFound new)"
         "sorted (map ev_formsFound new)"
         "sorted (map ev_endpointsTested new)"
         "\<forall>x \<in> set new. pool_le ?st x"
         "\<forall>x \<in> set new. pool_ge st' x"
         "pool_totalPages st' = pool_totalPages ?st"
         "pool_pagesScanned st' \<le> pool_totalPages st'"
         "pool_vulnerabilitiesFound st'
            \<le> pool_vulnerabilitiesFound ?st + length (concat (map result_findings ds))"
    by blast
  have p: "pool_events sid ?pool = pool_events sid pool"
    by (simp add: pool_events_def)
  have sp: "scanPages sid n ds pool
              = (pool'\<lparr>emitted := emitted pool' @ [(sid, completion_event st')]\<rparr>, st')"
    using new(1) by (simp add: scanPages_def Let_def)
  have 1: "scanPages_events sid n ds pool = new @ [completion_event st']"
    using new(2) by (simp add: scanPages_events_def sp p pool_events_def)
  have 2: "\<forall>e \<in> set new. ev_progress e = pool_percent n (ev_pagesScanned e)"
    using new(7) by (simp add: pool_le_def newScanState_def)
  have 3: "pool_pagesScanned st' \<le> n"
    using new(9,10) by (simp add: newScanState_def)
  have 4: "pool_vulnerabilitiesFound st' \<le> length (concat (map result_findings ds))"
    using new(11) by (simp add: newScanState_def)
  from 1 2 3 4 new(3-6,8) sp show ?thesis by auto
qed

lemma sorted_snoc:
  "sorted (xs @ [y :: nat]) \<longleftrightarrow> sorted xs \<and> (\<forall>x \<in> set xs. x \<le> y)"
  by (auto simp: sorted_append)

lemma scanPages_events_sorted:
  "sorted (map ev_pagesScanned (scanPages_events sid n ds pool))"
  "sorted (map ev_vulnerabilitiesFound (scanPages_events sid n ds pool))"
  "sorted (map ev_formsFound (scanPages_events sid n ds pool))"
  "sorted (map ev_endpointsTested (scanPages_events sid n ds pool))"
  "sorted (map ev_progress (scanPages_events sid n ds pool))"
proof -
  from scanPages_run [of sid n ds pool] obtain new st' where
    r: "scanPages_events sid n ds pool = new @ [completion_event st']"
       "sorted (map ev_pagesScanned new)"
       "sorted (map ev_vulnerabilitiesFound new)"
       "sorted (map ev_formsFound new)"
       "sorted (map ev_endpointsTested new)"
       "\<forall>e \<in> set new. ev_progress e = pool_percent n (ev_pagesScanned e)"
       "\<forall>e \<in> set new. pool_ge st' e"
       "pool_pagesScanned st' \<le> n"
    by blast
  show "sorted (map ev_pagesScanned (scanPages_events sid n ds pool))"
    using r(2,7) by (simp add: r(1) sorted_snoc completion_event_def pool_ge_def)
  show "sorted (map ev_vulnerabilitiesFound (scanPages_events sid n ds pool))"
    using r(3,7) by (simp add: r(1) sorted_snoc completion_event_def pool_ge_def)
  show "sorted (map ev_formsFound (scanPages_events sid n ds pool))"
    using r(4,7) by (simp add: r(1) sorted_snoc completion_event_def pool_ge_def)
  show "sorted (map ev_endpointsTested (scanPages_events sid n ds pool))"
    using r(5,7) by (simp add: r(1) sorted_snoc completion_event_def pool_ge_def)
  from r(6) have mp: "map ev_progress new = map (\<lambda>e. pool_percent n (ev_pagesScanned e)) new"
    by simp
  have s: "sorted (map ev_progress new)"
    unfolding mp using r(2) by (rule sorted_map_comp) (rule pool_percent_mono)
  have "ev_progress e \<le> 100" if "e \<in> set new" for e
  proof -
    from that r(7,8) have "ev_pagesScanned e \<le> n"
      by (auto simp: pool_ge_def)
    then show ?thesis
      using that r(6) by (simp add: pool_percent_le)
  qed
  with s show "sorted (map ev_progress (scanPages_events sid n ds pool))"
    by (simp add: r(1) sorted_snoc completion_event_def)
qed

subsection \<open>The events of a whole scan\<close>

lemma pages_found_facts:
  "sorted (pages_found n)"
  "length (pages_found n) = n"
  "pages_found n = [] \<longleftrightarrow> n = 0"
  "n \<noteq> 0 \<Longrightarrow> last (pages_found n) = n"
  by (simp_all add: pages_found_def del: upt_Suc)

lemma backgroundScan_scanned:
  "snd (backgroundScan (coordinator sid pool (Scanned n ds)) now sid u store (Some ws))
     = Some (completeScan sid (final_stats sid n ds pool)
               (fold (\<lambda>e. updateScanningProgress sid (scanning_update_of e))
                  (page_events sid n ds pool)
                  (fold (updateCrawlingProgress sid) (pages_found n) (startScan sid 0 ws))))"
  by (simp add: backgroundScan_def performVulnerabilityScan_def coordinator_def
        final_stats_def Let_def)

lemma backgroundScan_fatal:
  "snd (backgroundScan (coordinator sid pool (CrawlFatal err)) now sid u store (Some ws))
     = Some (completeScan sid
               \<lparr>pr_vulnerabilities = [scanErrorFinding u err], pr_pagesScanned = 0,
                pr_crawlStats = []\<rparr>
               (errorScan sid (''Scan failed: '' @ err) (startScan sid 0 ws)))"
  by (simp add: backgroundScan_def performVulnerabilityScan_def coordinator_def Let_def)

lemma scan_publications_scanned:
  "scan_publications sid u pool (Scanned n ds) ws
     = start_event 0 # map (crawl_event (start_event 0)) (pages_found n)
       @ map (\<lambda>e. scan_event (after_crawl n) (scanning_update_of e)) (page_events sid n ds pool)
       @ [complete_event (after_scanning n (page_events sid n ds pool))
            (final_stats sid n ds pool)]"
proof -
  let ?es = "page_events sid n ds pool"
  let ?ws0 = "startScan sid 0 ws"
  let ?ws1 = "fold (updateCrawlingProgress sid) (pages_found n) ?ws0"
  let ?ws2 = "fold (\<lambda>e. updateScanningProgress sid (scanning_update_of e)) ?es ?ws1"
  have s: "sorted (pages_found n)" by (rule pages_found_facts)
  from crawling_run [of ?ws0 sid "start_event 0" "(pages_found n)", OF events_of_startScan(2) s]
  have c: "events_of sid ?ws1
             = events_of sid ws @ start_event 0 # map (crawl_event (start_event 0)) (pages_found n)"
    and q: "scanProgress ?ws1 sid = Some (after_crawl n)"
    by (simp_all add: events_of_startScan(1) after_crawl_def pages_found_facts)
  from scanning_run [of ?ws1 sid "after_crawl n" ?es, OF q]
  have e: "events_of sid ?ws2
             = events_of sid ?ws1
               @ map (\<lambda>e. scan_event (after_crawl n) (scanning_update_of e)) ?es"
    and r: "scanProgress ?ws2 sid = Some (after_scanning n ?es)"
    by (simp_all add: after_scanning_def)
  from events_of_completeScan [OF r, of "final_stats sid n ds pool"]
  have "events_of sid (completeScan sid (final_stats sid n ds pool) ?ws2)
          = events_of sid ws @ start_event 0 # map (crawl_event (start_event 0)) (pages_found n)
            @ map (\<lambda>e. scan_event (after_crawl n) (scanning_update_of e)) ?es
            @ [complete_event (after_scanning n ?es) (final_stats sid n ds pool)]"
    by (simp add: e c)
  then show ?thesis
    by (simp add: scan_publications_def backgroundScan_scanned)
qed

lemma scan_publications_fatal:
  "scan_publications sid u pool (CrawlFatal err) ws
     = [start_event 0, error_event (start_event 0),
        complete_event (error_event (start_event 0))
          \<lparr>pr_vulnerabilities = [scanErrorFinding u err], pr_pagesScanned = 0,
           pr_crawlStats = []\<rparr>]"
proof -
  let ?ws0 = "startScan sid 0 ws"
  let ?ws1 = "errorScan sid (''Scan failed: '' @ err) ?ws0"
  let ?fs = "\<lparr>pr_vulnerabilities = [scanErrorFinding u err], pr_pagesScanned = 0,
              pr_crawlStats = []\<rparr>"
  note e = events_of_errorScan [of ?ws0 sid "start_event 0" "''Scan failed: '' @ err",
             OF events_of_startScan(2)]
  from events_of_completeScan [OF e(2), of ?fs] e(1) events_of_startScan(1) [of sid 0 ws]
  have "events_of sid (completeScan sid ?fs ?ws1)
          = events_of sid ws @ [start_event 0, error_event (start_event 0),
              complete_event (error_event (start_event 0)) ?fs]"
    by simp
  then show ?thesis
    by (simp add: scan_publications_def backgroundScan_fatal)
qed

lemma crawl_event_fields:
  "progress (crawl_event (start_event pages) c) = round_scaled c (max (max pages c) 1) 30"
  "prog_pagesScanned (crawl_event (start_event pages) c) = c"
  "vulnerabilitiesFound (crawl_event (start_event pages) c) = 0"
  "prog_formsFound (crawl_event (start_event pages) c) = 0"
  "prog_endpointsTested (crawl_event (start_event pages) c) = 0"
  "prog_status (crawl_event (start_event pages) c) = ''crawling''"
  by (simp_all add: crawl_event_def start_event_def)

lemma scan_event_fields:
  "progress (scan_event q (scanning_update_of e)) = scanning_percent (ev_pagesScanned e) (totalPages q)"
  "prog_pagesScanned (scan_event q (scanning_update_of e)) = ev_pagesScanned e"
  "vulnerabilitiesFound (scan_event q (scanning_update_of e)) = ev_vulnerabilitiesFound e"
  "prog_formsFound (scan_event q (scanning_update_of e)) = ev_formsFound e"
  "prog_endpointsTested (scan_event q (scanning_update_of e)) = ev_endpointsTested e"
  "prog_status (scan_event q (scanning_update_of e)) \<noteq> ''crawling''"
  by (simp_all add: scan_event_def scanning_update_of_def)

lemma start_event_fields:
  "progress (start_event pages) = 0"
  "prog_pagesScanned (start_event pages) = 0"
  "vulnerabilitiesFound (start_event pages) = 0"
  "prog_formsFound (start_event pages) = 0"
  "prog_endpointsTested (start_event pages) = 0"
  "prog_status (start_event pages) = ''crawling''"
  by (simp_all add: start_event_def)

lemma complete_event_fields:
  "progress (complete_event p fs) = 100"
  "prog_pagesScanned (complete_event p fs)
     = (if pr_pagesScanned fs = 0 then prog_pagesScanned p else pr_pagesScanned fs)"
  "vulnerabilitiesFound (complete_event p fs) = length (pr_vulnerabilities fs)"
  "prog_formsFound (complete_event p fs) = 0"
  "prog_endpointsTested (complete_event p fs) = 0"
  "prog_status (complete_event p fs) = ''completed''"
  by (simp_all add: complete_event_def)

lemma after_crawl_totalPages: "totalPages (after_crawl n) = n"
  by (simp add: after_crawl_def start_event_def crawl_event_def)

lemma sorted_zeros_then:
  assumes "sorted (map h us)"
  shows "sorted ((0 :: nat) # map (\<lambda>c. 0) (cs :: nat list) @ map h us)"
proof -
  have "sorted (map (\<lambda>c. 0 :: nat) cs)"
    by (induction cs) auto
  with assms show ?thesis
    by (simp add: sorted_append)
qed

lemma sorted_with_last:
  assumes "sorted (xs :: nat list)" and "xs \<noteq> []"
  shows "sorted (xs @ [last xs])"
proof -
  from assms(2) obtain ys y where xs: "xs = ys @ [y]"
    by (metis append_butlast_last_id)
  with assms(1) show ?thesis
    by (auto simp: sorted_append)
qed

lemma scanned_events_sorted:
  fixes sid u :: string and pool :: worker_pool and ws :: ws_server
    and ds :: "worker_data option list" and n :: nat
  defines "evs \<equiv> scan_publications sid u pool (Scanned n ds) ws"
  shows "length evs = Suc n + length (page_events sid n ds pool) + 1"
    and "map prog_status (take (Suc n) evs) = replicate (Suc n) ''crawling''"
    and "''crawling'' \<notin> set (map prog_status (drop (Suc n) evs))"
    and "sorted (map progress evs)"
    and "sorted (map vulnerabilitiesFound evs)"
    and "sorted (map prog_formsFound (butlast evs))"
    and "sorted (map prog_endpointsTested (butlast evs))"
    and "sorted (map prog_pagesScanned (take (Suc n) evs))"
    and "sorted (map prog_pagesScanned (drop (Suc n) evs))"
proof -
  define es where "es = page_events sid n ds pool"
  define q where "q = after_crawl n"
  define r where "r = after_scanning n es"
  define fs where "fs = final_stats sid n ds pool"
  define f where "f = (\<lambda>c. round_scaled c (max (max 0 c) 1) 30)"
  define g where "g = (\<lambda>e :: pool_event. scanning_percent (ev_pagesScanned e) n)"
  have evs: "evs = start_event 0 # map (crawl_event (start_event 0)) (pages_found n)
                   @ map (\<lambda>e. scan_event q (scanning_update_of e)) es @ [complete_event r fs]"
    unfolding evs_def q_def r_def fs_def es_def by (rule scan_publications_scanned)
  from scanPages_run [of sid n ds pool] obtain new st' where
    run: "scanPages_events sid n ds pool = new @ [completion_event st']"
         "snd (scanPages sid n ds pool) = st'"
         "sorted (map ev_pagesScanned new)"
         "sorted (map ev_vulnerabilitiesFound new)"
         "sorted (map ev_formsFound new)"
         "sorted (map ev_endpointsTested new)"
         "\<forall>e \<in> set new. pool_ge st' e"
         "pool_pagesScanned st' \<le> n"
         "pool_vulnerabilitiesFound st' \<le> length (concat (map result_findings ds))"
    by blast
  have es: "es = new"
    by (simp add: es_def page_events_def run(1))
  have bound: "ev_pagesScanned e \<le> n" if "e \<in> set es" for e
    using that run(7,8) by (auto simp: es pool_ge_def)
  show "length evs = Suc n + length (page_events sid n ds pool) + 1"
    by (simp add: evs es_def pages_found_facts)
  have len: "length (map (crawl_event (start_event 0)) (pages_found n)) = n"
    by (simp add: pages_found_facts)
  have tk: "take (Suc n) evs = start_event 0 # map (crawl_event (start_event 0)) (pages_found n)"
    unfolding evs using len by simp
  have dr: "drop (Suc n) evs = map (\<lambda>e. scan_event q (scanning_update_of e)) es @ [complete_event r fs]"
    unfolding evs using len by simp
  show "map prog_status (take (Suc n) evs) = replicate (Suc n) ''crawling''"
    unfolding tk
    by (simp add: crawl_event_fields start_event_fields comp_def map_replicate_const
          pages_found_facts)
  show "''crawling'' \<notin> set (map prog_status (drop (Suc n) evs))"
    unfolding dr
    by (auto simp: complete_event_fields scan_event_def scanning_update_of_def)
  have c1: "sorted (map f (pages_found n))"
    unfolding f_def using pages_found_facts(1) by (rule sorted_map_mono) (rule crawl_progress_mono)
  have s1: "sorted (map g es)"
    unfolding g_def es using run(3) by (rule sorted_map_comp) (rule scanning_percent_mono)
  have lo: "f c \<le> 30" for c
    using crawl_progress_le [of c 0] by (simp add: f_def)
  have mid: "30 \<le> g e" for e
    by (simp add: g_def scanning_percent_ge)
  have hi: "g e \<le> 100" if "e \<in> set es" for e
    unfolding g_def using bound [OF that] by (intro scanning_percent_le) simp
  have "map progress evs = 0 # map f (pages_found n) @ map g es @ [100]"
    by (simp add: evs f_def g_def q_def crawl_event_fields scan_event_fields start_event_fields
          complete_event_fields after_crawl_totalPages comp_def)
  moreover have "sorted (0 # map f (pages_found n) @ map g es @ [100])"
    using c1 s1 lo mid hi
    by (auto simp: sorted_append intro: order_trans [OF lo mid]
          order_trans [OF lo])
  ultimately show "sorted (map progress evs)" by simp
  have vle: "ev_vulnerabilitiesFound e \<le> length (pr_vulnerabilities fs)" if "e \<in> set es" for e
    using that run(7,9) by (auto simp: es pool_ge_def fs_def final_stats_def)
  have "map vulnerabilitiesFound evs
          = (0 # map (\<lambda>c. 0) (pages_found n) @ map ev_vulnerabilitiesFound es)
            @ [length (pr_vulnerabilities fs)]"
    by (simp add: evs crawl_event_fields scan_event_fields start_event_fields
          complete_event_fields comp_def)
  moreover have "sorted ((0 # map (\<lambda>c. 0) (pages_found n) @ map ev_vulnerabilitiesFound es)
                   @ [length (pr_vulnerabilities fs)])"
    unfolding sorted_snoc
    using sorted_zeros_then [of ev_vulnerabilitiesFound es "(pages_found n)"] run(4) vle
    by (auto simp: es)
  ultimately show "sorted (map vulnerabilitiesFound evs)" by simp
  have bl: "butlast evs = start_event 0 # map (crawl_event (start_event 0)) (pages_found n)
                   @ map (\<lambda>e. scan_event q (scanning_update_of e)) es"
    unfolding evs by (simp add: butlast_append)
  have "map prog_formsFound (butlast evs) = 0 # map (\<lambda>c. 0) (pages_found n) @ map ev_formsFound es"
    by (simp add: bl crawl_event_fields scan_event_fields start_event_fields comp_def
         )
  then show "sorted (map prog_formsFound (butlast evs))"
    using sorted_zeros_then [of ev_formsFound es "(pages_found n)"] run(5) by (simp add: es)
  have "map prog_endpointsTested (butlast evs)
          = 0 # map (\<lambda>c. 0) (pages_found n) @ map ev_endpointsTested es"
    by (simp add: bl crawl_event_fields scan_event_fields start_event_fields comp_def
         )
  then show "sorted (map prog_endpointsTested (butlast evs))"
    using sorted_zeros_then [of ev_endpointsTested es "(pages_found n)"] run(6) by (simp add: es)
  have "map prog_pagesScanned (take (Suc n) evs) = 0 # (pages_found n)"
    unfolding tk
    by (simp add: crawl_event_fields start_event_fields comp_def)
  then show "sorted (map prog_pagesScanned (take (Suc n) evs))"
    by (simp add: pages_found_facts)
  have ps: "map prog_pagesScanned (drop (Suc n) evs)
          = map ev_pagesScanned es @ [prog_pagesScanned (complete_event r fs)]"
    unfolding dr by (simp add: scan_event_fields comp_def)
  have s: "sorted (map ev_pagesScanned es)"
    using run(3) by (simp add: es)
  show "sorted (map prog_pagesScanned (drop (Suc n) evs))"
  proof (cases "es = []")
    case True
    then show ?thesis by (simp add: ps)
  next
    case False
    show ?thesis
    proof (cases "pool_pagesScanned st' = 0")
      case True
      then have "prog_pagesScanned (complete_event r fs) = ev_pagesScanned (last es)"
        using False
        by (simp add: complete_event_fields fs_def final_stats_def run(2) r_def
              after_scanning_def scan_event_fields)
      also have "\<dots> = last (map ev_pagesScanned es)"
        using False by (simp add: last_map)
      finally show ?thesis
        using sorted_with_last [OF s] False by (simp add: ps)
    next
      case nz: False
      then have "prog_pagesScanned (complete_event r fs) = pool_pagesScanned st'"
        by (simp add: complete_event_fields fs_def final_stats_def run(2))
      moreover have "\<forall>x \<in> set (map ev_pagesScanned es). x \<le> pool_pagesScanned st'"
        using run(7) by (auto simp: es pool_ge_def)
      ultimately show ?thesis
        using s by (simp add: ps sorted_snoc)
    qed
  qed
qed

lemma fatal_events_sorted:
  fixes sid u err :: string and pool :: worker_pool and ws :: ws_server
  defines "evs \<equiv> scan_publications sid u pool (CrawlFatal err) ws"
  shows "map prog_status evs = [''crawling'', ''error'', ''completed'']"
    and "sorted (map progress evs)"
    and "sorted (map vulnerabilitiesFound evs)"
    and "sorted (map prog_formsFound evs)"
    and "sorted (map prog_endpointsTested evs)"
    and "sorted (map prog_pagesScanned evs)"
  unfolding evs_def scan_publications_fatal
  by (simp_all add: start_event_def error_event_def complete_event_def)

subsection \<open>An example scan\<close>

lemma example_percentages:
  "round_scaled 1 2 100 = 50" "scanning_percent 1 2 = 65" "scanning_percent 2 2 = 100"
  "round_scaled 1 1 30 = 30" "round_scaled 2 2 30 = 30" "round_scaled 2 2 100 = 100"
  "round_scaled 23 40 100 = 57" "round_scaled 29 200 100 = 14"
  by code_simp+

lemma example_page_events:
  "scanPages_events ''s'' 2 [plainData, pageData] emptyPool
     = [\<lparr>ev_status = ''running'', ev_progress = 50, ev_pagesScanned = 1, ev_totalPages = 2,
         ev_vulnerabilitiesFound = 0, ev_formsFound = 0, ev_endpointsTested = 0\<rparr>,
        \<lparr>ev_status = ''completed'', ev_progress = 100, ev_pagesScanned = 2, ev_totalPages = 2,
         ev_vulnerabilitiesFound = 1, ev_formsFound = 1, ev_endpointsTested = 13\<rparr>,
        \<lparr>ev_status = ''completed'', ev_progress = 100, ev_pagesScanned = 2, ev_totalPages = 2,
         ev_vulnerabilitiesFound = 1, ev_formsFound = 1, ev_endpointsTested = 13\<rparr>]"
  "pool_pagesScanned (snd (scanPages ''s'' 2 [plainData, pageData] emptyPool)) = 2"
  by code_simp+

lemma example_scan:
  "scan_publications ''s'' ''http://t.example/'' emptyPool (Scanned 2 [plainData, pageData])
     emptyServer
     = [\<lparr>prog_status = ''crawling'', progress = 0, prog_pagesScanned = 0, totalPages = 0,
         vulnerabilitiesFound = 0, prog_formsFound = 0, prog_endpointsTested = 0\<rparr>,
        \<lparr>prog_status = ''crawling'', progress = 30, prog_pagesScanned = 1, totalPages = 1,
         vulnerabilitiesFound = 0, prog_formsFound = 0, prog_endpointsTested = 0\<rparr>,
        \<lparr>prog_status = ''crawling'', progress = 30, prog_pagesScanned = 2, totalPages = 2,
         vulnerabilitiesFound = 0, prog_formsFound = 0, prog_endpointsTested = 0\<rparr>,
        \<lparr>prog_status = ''scanning'', progress = 65, prog_pagesScanned = 1, totalPages = 2,
         vulnerabilitiesFound = 0, prog_formsFound = 0, prog_endpointsTested = 0\<rparr>,
        \<lparr>prog_status = ''completed'', progress = 100, prog_pagesScanned = 2, totalPages = 2,
         vulnerabilitiesFound = 1, prog_formsFound = 1, prog_endpointsTested = 13\<rparr>,
        \<lparr>prog_status = ''completed'', progress = 100, prog_pagesScanned = 2, totalPages = 2,
         vulnerabilitiesFound = 1, prog_formsFound = 0, prog_endpointsTested = 0\<rparr>]"
  by code_simp

text \<open>
  C1, as the spec states it: no counter decreases from one event of a scan to the next.
  In the example the crawl finds two pages; the scan of the first finds nothing, the
  scan of the second finds one vulnerability in one form after thirteen probes.
  \<open>pagesScanned\<close>, which holds the number of pages found while crawling, is 2 at the
  end of the crawl and 1 at the first scanning event; \<open>formsFound\<close> and
  \<open>endpointsTested\<close> are 1 and 13 at the last scanning event and 0 at the completion
  event, for which the route reads them from a result that has neither.
\<close>

theorem published_counters_drop:
  "map prog_pagesScanned
     (scan_publications ''s'' ''http://t.example/'' emptyPool (Scanned 2 [plainData, pageData])
        emptyServer) = [0, 1, 2, 1, 2, 2]
   \<and> map prog_formsFound
       (scan_publications ''s'' ''http://t.example/'' emptyPool (Scanned 2 [plainData, pageData])
          emptyServer) = [0, 0, 0, 0, 1, 0]
   \<and> map prog_endpointsTested
       (scan_publications ''s'' ''http://t.example/'' emptyPool (Scanned 2 [plainData, pageData])
          emptyServer) = [0, 0, 0, 0, 13, 0]
   \<and> \<not> sorted (map prog_pagesScanned
         (scan_publications ''s'' ''http://t.example/'' emptyPool
            (Scanned 2 [plainData, pageData]) emptyServer))
   \<and> \<not> sorted (map prog_formsFound
         (scan_publications ''s'' ''http://t.example/'' emptyPool
            (Scanned 2 [plainData, pageData]) emptyServer))
   \<and> \<not> sorted (map prog_endpointsTested
         (scan_publications ''s'' ''http://t.example/'' emptyPool
            (Scanned 2 [plainData, pageData]) emptyServer))"
  by (simp add: example_scan)

text \<open>
  C1, amended. The events published for a scan are the start event, one crawling event
  for each page the crawl finds, one scanning event for each worker result the pool
  counts, and the completion event; for a scan whose crawl is fatal they are the start
  event, the error event and the completion event. In them the progress percentage and
  \<open>vulnerabilitiesFound\<close> never decrease, also across the transition from crawling to
  scanning and at the completion; \<open>formsFound\<close> and \<open>endpointsTested\<close> never decrease
  up to the last event before the completion; \<open>pagesScanned\<close> never decreases among
  the start and crawling events, and never decreases among the scanning events and the
  completion event. In the \<open>progress\<close> events the worker pool emits for the pages of
  a scan, every counter and the percentage never decrease.
\<close>

theorem progress_events_monotone:
  "length (scan_publications sid u pool (Scanned n ds) ws)
     = Suc n + length (page_events sid n ds pool) + 1
   \<and> map prog_status (take (Suc n) (scan_publications sid u pool (Scanned n ds) ws))
       = replicate (Suc n) ''crawling''
   \<and> ''crawling'' \<notin> set (map prog_status
                           (drop (Suc n) (scan_publications sid u pool (Scanned n ds) ws)))
   \<and> sorted (map progress (scan_publications sid u pool (Scanned n ds) ws))
   \<and> sorted (map vulnerabilitiesFound (scan_publications sid u pool (Scanned n ds) ws))
   \<and> sorted (map prog_formsFound (butlast (scan_publications sid u pool (Scanned n ds) ws)))
   \<and> sorted (map prog_endpointsTested
               (butlast (scan_publications sid u pool (Scanned n ds) ws)))
   \<and> sorted (map prog_pagesScanned
               (take (Suc n) (scan_publications sid u pool (Scanned n ds) ws)))
   \<and> sorted (map prog_pagesScanned
               (drop (Suc n) (scan_publications sid u pool (Scanned n ds) ws)))
   \<and> map prog_status (scan_publications sid u pool (CrawlFatal err) ws)
       = [''crawling'', ''error'', ''completed'']
   \<and> sorted (map progress (scan_publications sid u pool (CrawlFatal err) ws))
   \<and> sorted (map vulnerabilitiesFound (scan_publications sid u pool (CrawlFatal err) ws))
   \<and> sorted (map prog_formsFound (scan_publications sid u pool (CrawlFatal err) ws))
   \<and> sorted (map prog_endpointsTested (scan_publications sid u pool (CrawlFatal err) ws))
   \<and> sorted (map prog_pagesScanned (scan_publications sid u pool (CrawlFatal err) ws))
   \<and> sorted (map ev_pagesScanned (scanPages_events sid n ds pool))
   \<and> sorted (map ev_vulnerabilitiesFound (scanPages_events sid n ds pool))
   \<and> sorted (map ev_formsFound (scanPages_events sid n ds pool))
   \<and> sorted (map ev_endpointsTested (scanPages_events sid n ds pool))
   \<and> sorted (map ev_progress (scanPages_events sid n ds pool))"
  by (intro conjI scanned_events_sorted fatal_events_sorted scanPages_events_sorted)

theorem progress_events_monotone_witness:
  "map progress
     (scan_publications ''s'' ''http://t.example/'' emptyPool (Scanned 2 [plainData, pageData])
        emptyServer) = [0, 30, 30, 65, 100, 100]
   \<and> sorted (map progress
       (scan_publications ''s'' ''http://t.example/'' emptyPool (Scanned 2 [plainData, pageData])
          emptyServer))
   \<and> map vulnerabilitiesFound
       (scan_publications ''s'' ''http://t.example/'' emptyPool (Scanned 2 [plainData, pageData])
          emptyServer) = [0, 0, 0, 0, 1, 1]
   \<and> sorted (map prog_formsFound (butlast
       (scan_publications ''s'' ''http://t.example/'' emptyPool (Scanned 2 [plainData, pageData])
          emptyServer)))
   \<and> map prog_pagesScanned (drop (Suc 2)
       (scan_publications ''s'' ''http://t.example/'' emptyPool (Scanned 2 [plainData, pageData])
          emptyServer)) = [1, 2, 2]
   \<and> sorted (map prog_pagesScanned (drop (Suc 2)
       (scan_publications ''s'' ''http://t.example/'' emptyPool (Scanned 2 [plainData, pageData])
          emptyServer)))
   \<and> map ev_progress (scanPages_events ''s'' 2 [plainData, pageData] emptyPool) = [50, 100, 100]
   \<and> sorted (map ev_progress (scanPages_events ''s'' 2 [plainData, pageData] emptyPool))
   \<and> map vulnerabilitiesFound
       (scan_publications ''s'' ''http://t.example/'' emptyPool
          (CrawlFatal ''connect ECONNREFUSED 10.0.0.1:80'') emptyServer) = [0, 0, 1]
   \<and> sorted (map vulnerabilitiesFound
       (scan_publications ''s'' ''http://t.example/'' emptyPool
          (CrawlFatal ''connect ECONNREFUSED 10.0.0.1:80'') emptyServer))"
proof -
  note inst = progress_events_monotone
         [of "''s''" "''http://t.example/''" emptyPool 2 "[plainData, pageData]" emptyServer
             "''connect ECONNREFUSED 10.0.0.1:80''"]
  have a: "map progress
     (scan_publications ''s'' ''http://t.example/'' emptyPool (Scanned 2 [plainData, pageData])
        emptyServer) = [0, 30, 30, 65, 100, 100]"
    "map vulnerabilitiesFound
       (scan_publications ''s'' ''http://t.example/'' emptyPool (Scanned 2 [plainData, pageData])
          emptyServer) = [0, 0, 0, 0, 1, 1]"
    "map prog_pagesScanned (drop (Suc 2)
       (scan_publications ''s'' ''http://t.example/'' emptyPool (Scanned 2 [plainData, pageData])
          emptyServer)) = [1, 2, 2]"
    by (simp_all add: example_scan)
  have b: "map ev_progress (scanPages_events ''s'' 2 [plainData, pageData] emptyPool)
             = [50, 100, 100]"
    by (simp add: example_page_events)
  have c: "map vulnerabilitiesFound
       (scan_publications ''s'' ''http://t.example/'' emptyPool
          (CrawlFatal ''connect ECONNREFUSED 10.0.0.1:80'') emptyServer) = [0, 0, 1]"
    by (simp add: scan_publications_fatal start_event_def error_event_def complete_event_def)
  from inst a b c show ?thesis
    by (intro conjI) blast+
qed

subsection \<open>A scan that fails\<close>

text \<open>
  C9, as the spec states it: a scan whose scanner fails is persisted with the status
  \<open>failed\<close>. It is persisted with the status \<open>completed\<close>:
  \<open>performVulnerabilityScan\<close> catches the error and returns a result.
\<close>

theorem failed_scan_is_completed:
  "map_option scan_status
     (fst (backgroundScan failingScanner 1000 ''id-1'' ''http://down.example/''
             (createScan ''id-1'' ''http://down.example/'' Map.empty) (Some emptyServer))
        ''id-1'')
   = Some ''completed''"
  by (simp add: backgroundScan_def performVulnerabilityScan_def failingScanner_def
        updateScan_def createScan_def Let_def)

text \<open>
  C9, amended: when the scanner of a persisted scan fails with an error,
  \<open>performVulnerabilityScan\<close> returns the synthetic finding \<open>Scan Error\<close>, of
  severity Low and category Information Disclosure, whose description begins with
  \<open>Unable to scan the target website\<close> and holds the error's message, and zero pages
  scanned; the scan is persisted with that finding and the status \<open>completed\<close>.
\<close>

theorem failed_scan_synthetic_finding:
  assumes "store sid = Some sc"
      and "fst (scanner (map_option (startScan sid 0) wsServer)) = Inl msg"
  shows "fst (performVulnerabilityScan scanner u sid wsServer)
           = \<lparr>pr_vulnerabilities = [scanErrorFinding u msg], pr_pagesScanned = 0,
              pr_crawlStats = []\<rparr>
       \<and> severity (scanErrorFinding u msg) = ''Low''
       \<and> category (scanErrorFinding u msg) = ''Information Disclosure''
       \<and> prefix (''Unable to scan the target website: '' @ msg)
            (description (scanErrorFinding u msg))
       \<and> fst (backgroundScan scanner now sid u store wsServer) sid
           = Some (sc\<lparr>scan_status := ''completed'',
                      scan_vulnerabilities := [scanErrorFinding u msg],
                      scan_pagesScanned := 0, scan_crawlStats := [],
                      scan_completedAt := Some now\<rparr>)"
proof -
  obtain ws where s: "scanner (map_option (startScan sid 0) wsServer) = (Inl msg, ws)"
    using assms(2) by (cases "scanner (map_option (startScan sid 0) wsServer)") simp
  show ?thesis
    using assms(1) s
    by (simp add: performVulnerabilityScan_def backgroundScan_def updateScan_def
          scanErrorFinding_def Let_def)
qed

theorem failed_scan_synthetic_finding_witness:
  "createScan ''id-1'' ''http://down.example/'' Map.empty ''id-1''
     = Some \<lparr>scan_url = ''http://down.example/'', scan_status = ''pending'',
             scan_vulnerabilities = [], scan_pagesScanned = 0, scan_crawlStats = [],
             scan_completedAt = None\<rparr>
   \<and> fst (failingScanner (map_option (startScan ''id-1'' 0) (Some emptyServer)))
       = Inl ''connect ECONNREFUSED 10.0.0.1:80''
   \<and> fst (backgroundScan failingScanner 1000 ''id-1'' ''http://down.example/''
            (createScan ''id-1'' ''http://down.example/'' Map.empty) (Some emptyServer))
        ''id-1''
       = Some \<lparr>scan_url = ''http://down.example/'', scan_status = ''completed'',
               scan_vulnerabilities =
                 [scanErrorFinding ''http://down.example/'' ''connect ECONNREFUSED 10.0.0.1:80''],
               scan_pagesScanned = 0, scan_crawlStats = [], scan_completedAt = Some 1000\<rparr>"
proof -
  let ?sc = "\<lparr>scan_url = ''http://down.example/'', scan_status = ''pending'',
               scan_vulnerabilities = [], scan_pagesScanned = 0, scan_crawlStats = [],
               scan_completedAt = None\<rparr>"
  have h1: "createScan ''id-1'' ''http://down.example/'' Map.empty ''id-1'' = Some ?sc"
    by (simp add: createScan_def)
  have h2: "fst (failingScanner (map_option (startScan ''id-1'' 0) (Some emptyServer)))
              = Inl ''connect ECONNREFUSED 10.0.0.1:80''"
    by (simp add: failingScanner_def)
  from failed_scan_synthetic_finding
         [of "createScan ''id-1'' ''http://down.example/'' Map.empty" "''id-1''" ?sc
             failingScanner "Some emptyServer" "''connect ECONNREFUSED 10.0.0.1:80''"
             "''http://down.example/''" 1000, OF h1 h2]
       h1 h2
  show ?thesis by simp
qed

end
